theory Spec2Isabelle
  imports Complex_Main
begin

section \<open>Data model of \<open>Layout1d\<close>\<close>

text \<open>
  The layout keeps JavaScript numbers. They are modelled as exact reals for positions and
  sizes and as integers for item indices and counts; \<open>undefined\<close> is \<open>None\<close>.
  Rounding of floating-point arithmetic and the value NaN are outside the model, except
  where the source can divide by zero, which is written out.
\<close>

text \<open>\<open>ItemBounds = {pos, size}\<close>; the field \<open>size\<close> is named \<open>size_b\<close>.\<close>

record ItemBounds =
  pos :: real
  size_b :: real

text \<open>\<open>Size\<close> and \<open>ItemBox = Size | (Size & Margins)\<close> of \<open>Layout.ts\<close>.\<close>

record Size =
  width :: real
  height :: real

record ItemBox = Size +
  marginLeft :: "real option"
  marginRight :: "real option"
  marginTop :: "real option"
  marginBottom :: "real option"

text \<open>The value of \<open>_sizeDim\<close>: \<open>'width'\<close> or \<open>'height'\<close>.\<close>

datatype Dim = Width | Height

datatype Event =
    Warn string
  | ErrorMsg string
  | ScheduleReflow
  | EmitScrollSize real
  | EmitRange int int bool bool
  | EmitChildPositions "(int \<times> real \<times> real) list"
  | EmitScrollError real

text \<open>
  What a JavaScript run can do besides returning: \<open>TypeError\<close> is a property read on
  \<open>undefined\<close>; \<open>NaNIndex\<close> marks an anchor index that would be NaN (0 / 0), where the
  source goes on with NaN and the model stops.
\<close>

datatype error = TypeError | NaNIndex

text \<open>
  The fields of \<open>Layout1d\<close>, followed by the fields and getters it reads from its base
  class \<open>Layout1dBase\<close>, which only supplies them: \<open>_first\<close>, \<open>_last\<close>, \<open>_physicalMin\<close>,
  \<open>_physicalMax\<close>, \<open>_itemSize\<close>, \<open>_sizeDim\<close>, \<open>_spacing\<close>, \<open>_delta\<close>, \<open>_scrollPosition\<close>,
  \<open>_scrollError\<close>, \<open>_totalItems\<close>, \<open>_scrollSize\<close>, \<open>_viewDim1\<close> and \<open>_overhang\<close>.
  \<open>events\<close> records console output and the notifications handed to the host.
\<close>

record Layout1d =
  physicalItems :: "int \<rightharpoonup> ItemBounds"
  newPhysicalItems :: "int \<rightharpoonup> ItemBounds"
  metrics :: "int \<rightharpoonup> Size"
  anchorIdx :: "int option"
  anchorPos :: "real option"
  stable :: bool
  needsRemeasure :: bool
  nMeasured :: nat
  tMeasured :: real
  estimate :: bool
  firstIdx :: int
  lastIdx :: int
  physicalMin :: real
  physicalMax :: real
  itemSize :: Size
  sizeDim :: Dim
  spacing :: real
  delta :: real
  scrollPosition :: real
  scrollError :: real
  totalItems :: int
  scrollSize :: real
  viewDim1 :: real
  overhang :: real
  events :: "Event list"

section \<open>Sizes and measurements\<close>

text \<open>Reading and writing \<open>obj[this._sizeDim]\<close>.\<close>

definition dimOf :: "Dim \<Rightarrow> Size \<Rightarrow> real" where
  "dimOf d z = (case d of Width \<Rightarrow> width z | Height \<Rightarrow> height z)"

definition setDim :: "Dim \<Rightarrow> Size \<Rightarrow> real \<Rightarrow> Size" where
  "setDim d z v = (case d of Width \<Rightarrow> z\<lparr>width := v\<rparr> | Height \<Rightarrow> z\<lparr>height := v\<rparr>)"

definition secondaryDim :: "Dim \<Rightarrow> Dim" where
  "secondaryDim d = (case d of Width \<Rightarrow> Height | Height \<Rightarrow> Width)"

text \<open>The getters \<open>_itemDim1\<close> and \<open>_itemDim2\<close>: the item size along each axis.\<close>

definition itemDim1 :: "Layout1d \<Rightarrow> real" where
  "itemDim1 s = dimOf (sizeDim s) (itemSize s)"

definition itemDim2 :: "Layout1d \<Rightarrow> real" where
  "itemDim2 s = dimOf (secondaryDim (sizeDim s)) (itemSize s)"

text \<open>\<open>m || 0\<close> on an optional margin.\<close>

definition orZero :: "real option \<Rightarrow> real" where
  "orZero m = (case m of None \<Rightarrow> 0 | Some v \<Rightarrow> v)"

text \<open>\<open>a || b\<close> on an optional number: \<open>undefined\<close> and \<open>0\<close> are falsy.\<close>

definition orElse :: "real option \<Rightarrow> real \<Rightarrow> real" where
  "orElse a b = (case a of None \<Rightarrow> b | Some v \<Rightarrow> if v = 0 then b else v)"

text \<open>\<open>Math.round\<close>: the nearest integer, halves rounded up.\<close>

definition js_round :: "real \<Rightarrow> int" where
  "js_round x = \<lfloor>x + 1 / 2\<rfloor>"

definition getPhysicalItem :: "Layout1d \<Rightarrow> int \<Rightarrow> ItemBounds option" where
  "getPhysicalItem s idx =
     (case newPhysicalItems s idx of Some b \<Rightarrow> Some b | None \<Rightarrow> physicalItems s idx)"

definition getSize :: "Layout1d \<Rightarrow> int \<Rightarrow> real option" where
  "getSize s idx = (case getPhysicalItem s idx of None \<Rightarrow> None | Some item \<Rightarrow> Some (size_b item))"

definition getPosition :: "Layout1d \<Rightarrow> int \<Rightarrow> real" where
  "getPosition s idx =
     (case physicalItems s idx of
        Some item \<Rightarrow> pos item
      | None \<Rightarrow> of_int idx * delta s + spacing s)"

definition getItemSize :: "Layout1d \<Rightarrow> int \<Rightarrow> Size" where
  "getItemSize s idx =
     setDim (secondaryDim (sizeDim s))
       (setDim (sizeDim s) \<lparr>width = 0, height = 0\<rparr> (orElse (getSize s idx) (itemDim1 s)))
       (itemDim2 s)"

text \<open>The margin-inclusive box that \<open>updateItemSizes\<close> stores in \<open>_metrics\<close>.\<close>

definition effectiveBox :: "ItemBox \<Rightarrow> Size" where
  "effectiveBox b =
     \<lparr>width = width b + orZero (marginLeft b) + orZero (marginRight b),
      height = height b + orZero (marginTop b) + orZero (marginBottom b)\<rparr>"

text \<open>\<open>item.size = size\<close> on the object \<open>_getPhysicalItem\<close> returned.\<close>

definition setItemSize :: "Layout1d \<Rightarrow> int \<Rightarrow> real \<Rightarrow> Layout1d" where
  "setItemSize s idx v =
     (case newPhysicalItems s idx of
        Some b \<Rightarrow> s\<lparr>newPhysicalItems := (newPhysicalItems s)(idx \<mapsto> b\<lparr>size_b := v\<rparr>)\<rparr>
      | None \<Rightarrow>
          (case physicalItems s idx of
             Some b \<Rightarrow> s\<lparr>physicalItems := (physicalItems s)(idx \<mapsto> b\<lparr>size_b := v\<rparr>)\<rparr>
           | None \<Rightarrow> s))"

text \<open>The body of the \<open>forEach\<close> of \<open>updateItemSizes\<close>, for one key.\<close>

definition measureItem :: "Layout1d \<Rightarrow> int \<times> ItemBox \<Rightarrow> Layout1d" where
  "measureItem s kb =
     (let key = fst kb;
          prevSize = (case metrics s key of None \<Rightarrow> None | Some m \<Rightarrow> Some (dimOf (sizeDim s) m));
          mi = effectiveBox (snd kb);
          sz = dimOf (sizeDim s) mi;
          s1 = s\<lparr>metrics := (metrics s)(key \<mapsto> mi)\<rparr>
      in case getPhysicalItem s1 key of
           None \<Rightarrow> s1
         | Some item \<Rightarrow>
             (case prevSize of
                None \<Rightarrow> (setItemSize s1 key sz)
                          \<lparr>nMeasured := nMeasured s1 + 1, tMeasured := tMeasured s1 + sz\<rparr>
              | Some p \<Rightarrow> (setItemSize s1 key sz)\<lparr>tMeasured := tMeasured s1 + (sz - p)\<rparr>))"

text \<open>
  \<open>_updateItemSize\<close>. It is called with \<open>_nMeasured\<close> non-zero only; at zero the source
  divides by zero.
\<close>

definition updateItemSize :: "Layout1d \<Rightarrow> Layout1d" where
  "updateItemSize s =
     s\<lparr>itemSize := setDim (sizeDim s) (itemSize s)
          (of_int (js_round (tMeasured s / of_nat (nMeasured s))))\<rparr>"

text \<open>\<open>_scheduleReflow\<close> of the base class: the request is recorded.\<close>

definition scheduleReflow :: "Layout1d \<Rightarrow> Layout1d" where
  "scheduleReflow s = s\<lparr>events := events s @ [ScheduleReflow]\<rparr>"

text \<open>
  \<open>updateItemSizes\<close>. The argument lists the entries of \<open>sizes\<close> in the order of
  \<open>Object.keys\<close>.
\<close>

definition updateItemSizes :: "Layout1d \<Rightarrow> (int \<times> ItemBox) list \<Rightarrow> Layout1d" where
  "updateItemSizes s sizes =
     (let s1 = foldl measureItem s sizes
      in if nMeasured s1 = 0
         then s1\<lparr>events := events s1 @ [Warn ''No items measured yet.'']\<rparr>
         else scheduleReflow (updateItemSize s1))"

section \<open>Extent error\<close>

definition calculateError :: "Layout1d \<Rightarrow> real" where
  "calculateError s =
     (if firstIdx s = 0 then physicalMin s
      else if physicalMin s \<le> 0 then physicalMin s - of_int (firstIdx s) * delta s
      else if lastIdx s = totalItems s - 1 then physicalMax s - scrollSize s
      else if physicalMax s \<ge> scrollSize s then
        (physicalMax s - scrollSize s) + of_int (totalItems s - 1 - lastIdx s) * delta s
      else 0)"

section \<open>Anchor selection\<close>

text \<open>
  \<open>_calculateAnchor\<close>. With \<open>_delta\<close> zero the quotient of the source is an infinity,
  which \<open>Math.min\<close> and \<open>Math.max\<close> clamp, or NaN (0 / 0).
\<close>

definition calculateAnchor :: "Layout1d \<Rightarrow> real \<Rightarrow> real \<Rightarrow> error + int" where
  "calculateAnchor s lower upper =
     (if lower = 0 then Inr 0
      else if upper > scrollSize s - viewDim1 s then Inr (totalItems s - 1)
      else
        (let m = (lower + upper) / 2
         in if delta s = 0
            then (if m = 0 then Inl NaNIndex
                  else if m > 0 then Inr (max 0 (totalItems s - 1))
                  else Inr 0)
            else Inr (max 0 (min (totalItems s - 1) \<lfloor>m / delta s\<rfloor>))))"

text \<open>
  The \<open>while (true)\<close> of \<open>_getAnchor\<close>. A candidate index without an entry makes the
  source read \<open>.pos\<close> of \<open>undefined\<close>; a candidate that strictly contains the interval
  changes neither bound, and the loop does not end: the result is then \<open>None\<close>.
\<close>

partial_function (option) anchorSearch ::
  "(int \<rightharpoonup> ItemBounds) \<Rightarrow> real \<Rightarrow> real \<Rightarrow> int \<Rightarrow> int \<Rightarrow> (error + int) option" where
  "anchorSearch items lower upper minIdx maxIdx =
     (let candidateIdx = (maxIdx + minIdx + 1) div 2
      in case items candidateIdx of
           None \<Rightarrow> Some (Inl TypeError)
         | Some candidate \<Rightarrow>
             (let cMin = pos candidate; cMax = cMin + size_b candidate
              in if (cMin \<ge> lower \<and> cMin \<le> upper) \<or> (cMax \<ge> lower \<and> cMax \<le> upper)
                 then Some (Inr candidateIdx)
                 else if cMax < lower then anchorSearch items lower upper (candidateIdx + 1) maxIdx
                 else if cMin > upper then anchorSearch items lower upper minIdx (candidateIdx - 1)
                 else anchorSearch items lower upper minIdx maxIdx))"

definition withState :: "Layout1d \<Rightarrow> error + int \<Rightarrow> error + int \<times> Layout1d" where
  "withState s r = (case r of Inl e \<Rightarrow> Inl e | Inr a \<Rightarrow> Inr (a, s))"

definition consoleError :: "Layout1d \<Rightarrow> string \<Rightarrow> Layout1d" where
  "consoleError s msg = s\<lparr>events := events s @ [ErrorMsg msg]\<rparr>"

definition getAnchor :: "Layout1d \<Rightarrow> real \<Rightarrow> real \<Rightarrow> (error + int \<times> Layout1d) option" where
  "getAnchor s lower upper =
     (if physicalItems s = Map.empty then Some (withState s (calculateAnchor s lower upper))
      else if firstIdx s < 0 then
        (let s1 = consoleError s ''_getAnchor: negative _first''
         in Some (withState s1 (calculateAnchor s1 lower upper)))
      else if lastIdx s < 0 then
        (let s1 = consoleError s ''_getAnchor: negative _last''
         in Some (withState s1 (calculateAnchor s1 lower upper)))
      else
        (case getPhysicalItem s (firstIdx s) of
           None \<Rightarrow> Some (Inl TypeError)
         | Some firstItem \<Rightarrow>
             (case getPhysicalItem s (lastIdx s) of
                None \<Rightarrow> Some (Inl TypeError)
              | Some lastItem \<Rightarrow>
                  (let firstMin = pos firstItem; firstMax = firstMin + size_b firstItem;
                       lastMin = pos lastItem; lastMax = lastMin + size_b lastItem
                   in if lastMax < lower then Some (withState s (calculateAnchor s lower upper))
                      else if firstMin > upper then Some (withState s (calculateAnchor s lower upper))
                      else if firstMin \<ge> lower \<or> firstMax \<ge> lower then Some (Inr (firstIdx s, s))
                      else if lastMax \<le> upper \<or> lastMin \<le> upper then Some (Inr (lastIdx s, s))
                      else
                        (case anchorSearch (physicalItems s) lower upper (firstIdx s) (lastIdx s) of
                           None \<Rightarrow> None
                         | Some r \<Rightarrow> Some (withState s r))))))"

section \<open>Window growth\<close>

text \<open>
  \<open>_getItems\<close>, in the order of the source: the anchor is chosen unless one is kept from
  the previous pass; the window is seeded with the anchor; it grows backward, then forward;
  the extent error is corrected; a stable window is committed.
\<close>

definition resolveAnchor ::
  "Layout1d \<Rightarrow> real \<Rightarrow> real \<Rightarrow> (error + Layout1d \<times> int \<times> real) option" where
  "resolveAnchor s lower upper =
     (case anchorIdx s of
        None \<Rightarrow>
          (case getAnchor s lower upper of
             None \<Rightarrow> None
           | Some (Inl e) \<Rightarrow> Some (Inl e)
           | Some (Inr (a, s1)) \<Rightarrow>
               Some (Inr (s1\<lparr>anchorIdx := Some a, anchorPos := Some (getPosition s1 a)\<rparr>,
                          a, getPosition s1 a)))
      | Some a0 \<Rightarrow>
          (case anchorPos s of
             None \<Rightarrow>
               (case getAnchor s lower upper of
                  None \<Rightarrow> None
                | Some (Inl e) \<Rightarrow> Some (Inl e)
                | Some (Inr (a, s1)) \<Rightarrow>
                    Some (Inr (s1\<lparr>anchorIdx := Some a, anchorPos := Some (getPosition s1 a)\<rparr>,
                               a, getPosition s1 a)))
           | Some p0 \<Rightarrow> Some (Inr (s, a0, p0))))"

text \<open>
  Lines 251 to 281: the anchor's size, the anchor error with the shift of \<open>lower\<close> and
  \<open>upper\<close>, and the seed of the window. The result carries the shifted \<open>lower\<close> and
  \<open>upper\<close>.
\<close>

definition seedWindow ::
  "Layout1d \<Rightarrow> int \<Rightarrow> real \<Rightarrow> real \<Rightarrow> real \<Rightarrow> Layout1d \<times> real \<times> real" where
  "seedWindow s a ap lower upper =
     (let anchorSize = (case getSize s a of None \<Rightarrow> itemDim1 s | Some z \<Rightarrow> z);
          err1 = (if ap + anchorSize + spacing s < lower
                  then lower - (ap + anchorSize + spacing s) else 0);
          anchorErr = (if ap > upper then upper - ap else err1);
          s1 = (if anchorErr \<noteq> 0
                then s\<lparr>scrollPosition := scrollPosition s - anchorErr,
                       scrollError := scrollError s + anchorErr\<rparr>
                else s);
          lower1 = (if anchorErr \<noteq> 0 then lower - anchorErr else lower);
          upper1 = (if anchorErr \<noteq> 0 then upper - anchorErr else upper)
      in (s1\<lparr>newPhysicalItems := (newPhysicalItems s1)(a \<mapsto> \<lparr>pos = ap, size_b = anchorSize\<rparr>),
             firstIdx := a, lastIdx := a, physicalMin := ap, physicalMax := ap,
             stable := True\<rparr>,
          lower1, upper1))"

text \<open>One iteration of the backward loop, up to the test for \<open>break\<close>.\<close>

definition backStep :: "Layout1d \<Rightarrow> Layout1d" where
  "backStep s =
     (let f = firstIdx s - 1;
          known = getSize s f;
          sz = (case known of None \<Rightarrow> itemDim1 s | Some z \<Rightarrow> z);
          p = physicalMin s - (sz + spacing s)
      in s\<lparr>firstIdx := f,
           stable := (case known of None \<Rightarrow> False | Some z \<Rightarrow> stable s),
           physicalMin := p,
           newPhysicalItems := (newPhysicalItems s)(f \<mapsto> \<lparr>pos = p, size_b = sz\<rparr>)\<rparr>)"

function growBackward :: "Layout1d \<Rightarrow> real \<Rightarrow> Layout1d" where
  "growBackward s lower =
     (if physicalMin s > lower \<and> firstIdx s > 0
      then (let s1 = backStep s
            in if \<not> stable s1 \<and> \<not> estimate s1 then s1 else growBackward s1 lower)
      else s)"
  by pat_completeness auto
termination
  by (relation "measure (\<lambda>(s, lower). nat (firstIdx s))") (auto simp: backStep_def Let_def)

text \<open>
  One iteration of the forward loop, up to the test for \<open>break\<close>; the second component is
  the size the iteration used.
\<close>

definition fwdStep :: "Layout1d \<Rightarrow> Layout1d \<times> real" where
  "fwdStep s =
     (let known = getSize s (lastIdx s);
          sz = (case known of None \<Rightarrow> itemDim1 s | Some z \<Rightarrow> z)
      in (s\<lparr>stable := (case known of None \<Rightarrow> False | Some z \<Rightarrow> stable s),
            newPhysicalItems :=
              (newPhysicalItems s)(lastIdx s \<mapsto> \<lparr>pos = physicalMax s, size_b = sz\<rparr>),
            lastIdx := lastIdx s + 1\<rparr>,
          sz))"

function growForward :: "Layout1d \<Rightarrow> real \<Rightarrow> Layout1d" where
  "growForward s upper =
     (if physicalMax s < upper \<and> lastIdx s < totalItems s
      then (let s1 = fst (fwdStep s); sz = snd (fwdStep s)
            in if \<not> stable s1 \<and> \<not> estimate s1 then s1
               else growForward (s1\<lparr>physicalMax := physicalMax s1 + (sz + spacing s1)\<rparr>) upper)
      else s)"
  by pat_completeness auto
termination
  by (relation "measure (\<lambda>(s, upper). nat (totalItems s - lastIdx s))")
     (auto simp: fwdStep_def Let_def)

text \<open>Lines 313 to 321: the extent error shifts the window that was built.\<close>

definition correctExtent :: "Layout1d \<Rightarrow> Layout1d" where
  "correctExtent s =
     (let extentErr = calculateError s
      in if extentErr \<noteq> 0
         then s\<lparr>physicalMin := physicalMin s - extentErr,
                physicalMax := physicalMax s - extentErr,
                anchorPos := (case anchorPos s of None \<Rightarrow> None | Some p \<Rightarrow> Some (p - extentErr)),
                scrollPosition := scrollPosition s - extentErr,
                newPhysicalItems :=
                  map_option (\<lambda>item. item\<lparr>pos := pos item - extentErr\<rparr>) \<circ> newPhysicalItems s,
                scrollError := scrollError s + extentErr\<rparr>
         else s)"

text \<open>Lines 251 to 310: the window grown around the anchor, before the extent error.\<close>

definition growWindow :: "Layout1d \<Rightarrow> int \<Rightarrow> real \<Rightarrow> real \<Rightarrow> real \<Rightarrow> Layout1d" where
  "growWindow s a ap lower upper =
     (let seeded = seedWindow s a ap lower upper;
          s1 = growBackward (fst seeded) (fst (snd seeded));
          s2 = growForward s1 (snd (snd seeded))
      in s2\<lparr>lastIdx := lastIdx s2 - 1\<rparr>)"

text \<open>The window as built by one pass, before the commit of lines 323 to 327.\<close>

definition buildWindow :: "Layout1d \<Rightarrow> int \<Rightarrow> real \<Rightarrow> real \<Rightarrow> real \<Rightarrow> Layout1d" where
  "buildWindow s a ap lower upper = correctExtent (growWindow s a ap lower upper)"

definition commitWindow :: "Layout1d \<Rightarrow> Layout1d" where
  "commitWindow s =
     (if stable s
      then s\<lparr>newPhysicalItems := Map.empty, physicalItems := newPhysicalItems s\<rparr>
      else s)"

definition getItems :: "Layout1d \<Rightarrow> real \<Rightarrow> real \<Rightarrow> (error + Layout1d) option" where
  "getItems s lower upper =
     (case resolveAnchor s lower upper of
        None \<Rightarrow> None
      | Some (Inl e) \<Rightarrow> Some (Inl e)
      | Some (Inr (s1, a, ap)) \<Rightarrow> Some (Inr (commitWindow (buildWindow s1 a ap lower upper))))"

definition clearItems :: "Layout1d \<Rightarrow> Layout1d" where
  "clearItems s =
     s\<lparr>firstIdx := - 1, lastIdx := - 1, physicalMin := 0, physicalMax := 0,
       newPhysicalItems := Map.empty, physicalItems := newPhysicalItems s,
       stable := True\<rparr>"

definition getActiveItems :: "Layout1d \<Rightarrow> (error + Layout1d) option" where
  "getActiveItems s =
     (if viewDim1 s = 0 \<or> totalItems s = 0 then Some (Inr (clearItems s))
      else
        (let upper = min (scrollSize s) (scrollPosition s + viewDim1 s + overhang s);
             lower = max 0 (upper - viewDim1 s - 2 * overhang s)
         in getItems s lower upper))"

section \<open>Reflow\<close>

text \<open>
  Modelled from the spec: \<open>Layout1dBase._updateScrollSize\<close>, which is not among the sources.
  Sections 3 and 4.5 give the content size before the observed extent is taken into account as
  the total item count times the average item size.
\<close>

definition baseUpdateScrollSize :: "Layout1d \<Rightarrow> Layout1d" where
  "baseUpdateScrollSize s = s\<lparr>scrollSize := of_int (totalItems s) * itemDim1 s\<rparr>"

definition updateScrollSize :: "Layout1d \<Rightarrow> Layout1d" where
  "updateScrollSize s =
     (let s1 = baseUpdateScrollSize s
      in s1\<lparr>scrollSize := max (physicalMax s1) (scrollSize s1)\<rparr>)"

text \<open>
  Modelled from the spec: \<open>Layout1dBase._scrollIfNeeded\<close>, which is not among the sources.
  Section 4.5: if the viewport scroll must be clamped to valid bounds, it is adjusted and the
  adjustment is noted as a scroll correction. The valid bounds are taken to run from 0 to the
  content size less the viewport extent.
\<close>

definition scrollIfNeeded :: "Layout1d \<Rightarrow> Layout1d" where
  "scrollIfNeeded s =
     (let p = max 0 (min (scrollSize s - viewDim1 s) (scrollPosition s))
      in s\<lparr>scrollError := scrollError s + (scrollPosition s - p), scrollPosition := p\<rparr>)"

text \<open>
  Modelled from the spec: \<open>Layout1dBase._updateVisibleIndices\<close>, which is not among the
  sources. It recomputes the list of visible indices, which is no field of this model.
\<close>

definition updateVisibleIndices :: "Layout1d \<Rightarrow> Layout1d" where
  "updateVisibleIndices s = s"

text \<open>
  Modelled from the spec: the notifications of \<open>Layout1dBase\<close>, which are not among the
  sources. Section 6 lists what a pass hands to the host: the content size, the range with its
  flags, a position and a size for every index of \<open>[first, last]\<close>, and the accumulated scroll
  correction. Positions and sizes are the ones \<open>_getItemPosition\<close> and \<open>_getItemSize\<close> report.
\<close>

definition emitScrollSize :: "Layout1d \<Rightarrow> Layout1d" where
  "emitScrollSize s = s\<lparr>events := events s @ [EmitScrollSize (scrollSize s)]\<rparr>"

definition childPositions :: "Layout1d \<Rightarrow> (int \<times> real \<times> real) list" where
  "childPositions s =
     map (\<lambda>idx. (idx, getPosition s idx, dimOf (sizeDim s) (getItemSize s idx)))
       [firstIdx s..lastIdx s]"

definition emitChildPositions :: "Layout1d \<Rightarrow> Layout1d" where
  "emitChildPositions s = s\<lparr>events := events s @ [EmitChildPositions (childPositions s)]\<rparr>"

definition emitScrollError :: "Layout1d \<Rightarrow> Layout1d" where
  "emitScrollError s = s\<lparr>events := events s @ [EmitScrollError (scrollError s)]\<rparr>"

text \<open>\<open>_emitRange\<close> of \<open>Layout1d\<close>: the flags are read, \<open>_needsRemeasure\<close> is cleared.\<close>

definition emitRange :: "Layout1d \<Rightarrow> Layout1d" where
  "emitRange s =
     s\<lparr>needsRemeasure := False,
       events := events s @ [EmitRange (firstIdx s) (lastIdx s) (needsRemeasure s) (stable s)]\<rparr>"

definition resetReflowState :: "Layout1d \<Rightarrow> Layout1d" where
  "resetReflowState s = s\<lparr>anchorIdx := None, anchorPos := None, stable := True\<rparr>"

definition reflow :: "Layout1d \<Rightarrow> (error + Layout1d) option" where
  "reflow s =
     (case getActiveItems (updateScrollSize s) of
        None \<Rightarrow> None
      | Some (Inl e) \<Rightarrow> Some (Inl e)
      | Some (Inr s2) \<Rightarrow>
          (let s3 = scrollIfNeeded s2;
               s4 = (if scrollSize s3 \<noteq> scrollSize s then emitScrollSize s3 else s3);
               s5 = emitRange (updateVisibleIndices s4)
           in Some (Inr
                (if firstIdx s5 = - 1 \<and> lastIdx s5 = - 1 then resetReflowState s5
                 else if firstIdx s5 \<noteq> firstIdx s \<or> lastIdx s5 \<noteq> lastIdx s \<or> needsRemeasure s5
                 then emitScrollError (emitChildPositions s5)
                 else resetReflowState (emitScrollError (emitChildPositions s5))))))"
section \<open>Notions used to state the properties\<close>

text \<open>
  The case analysis of the specification, as a list of guarded values read in order: the
  first guard that holds gives the error, and the error is 0 when none holds.
\<close>

fun firstGuarded :: "(bool \<times> real) list \<Rightarrow> real" where
  "firstGuarded [] = 0"
| "firstGuarded ((g, v) # rest) = (if g then v else firstGuarded rest)"

definition specError :: "int \<Rightarrow> int \<Rightarrow> int \<Rightarrow> real \<Rightarrow> real \<Rightarrow> real \<Rightarrow> real \<Rightarrow> real" where
  "specError first_i last_i totalCount pMin pMax averageDelta totalContentSize =
     firstGuarded
       [(first_i = 0, pMin),
        (pMin \<le> 0, pMin - of_int first_i * averageDelta),
        (last_i = totalCount - 1, pMax - totalContentSize),
        (pMax \<ge> totalContentSize,
           (pMax - totalContentSize) + of_int (totalCount - 1 - last_i) * averageDelta)]"


subsection \<open>Measurements\<close>

text \<open>An item is windowed when one of the two windows has bounds for it.\<close>

definition windowed :: "Layout1d \<Rightarrow> int \<Rightarrow> bool" where
  "windowed s k = (getPhysicalItem s k \<noteq> None)"






subsection \<open>The window being built\<close>

text \<open>The guards of the two growth loops and the test that makes them \<open>break\<close>.\<close>

definition backCond :: "Layout1d \<Rightarrow> real \<Rightarrow> bool" where
  "backCond s lower = (physicalMin s > lower \<and> firstIdx s > 0)"

definition breaks :: "Layout1d \<Rightarrow> bool" where
  "breaks s = (\<not> stable s \<and> \<not> estimate s)"

text \<open>Consecutive bounds: each item ends, with the spacing, where the next one starts.\<close>

definition adjoins :: "(int \<rightharpoonup> ItemBounds) \<Rightarrow> real \<Rightarrow> int \<Rightarrow> bool" where
  "adjoins m sp i =
     (case m i of
        None \<Rightarrow> False
      | Some b \<Rightarrow> (case m (i + 1) of None \<Rightarrow> False | Some c \<Rightarrow> pos b + size_b b + sp = pos c))"

definition contiguous :: "(int \<rightharpoonup> ItemBounds) \<Rightarrow> real \<Rightarrow> int \<Rightarrow> int \<Rightarrow> bool" where
  "contiguous m sp f l = list_all (adjoins m sp) [f..l - 1]"

text \<open>The first item of the window being built sits at \<open>_physicalMin\<close>.\<close>

definition headAtMin :: "Layout1d \<Rightarrow> bool" where
  "headAtMin s =
     (case newPhysicalItems s (firstIdx s) of None \<Rightarrow> False | Some b \<Rightarrow> pos b = physicalMin s)"

definition fwdCond :: "Layout1d \<Rightarrow> real \<Rightarrow> bool" where
  "fwdCond s upper = (physicalMax s < upper \<and> lastIdx s < totalItems s)"

text \<open>The state after an iteration of the forward loop that does not break.\<close>

definition fwdNext :: "Layout1d \<Rightarrow> Layout1d" where
  "fwdNext s = (fst (fwdStep s))\<lparr>physicalMax := physicalMax s + (snd (fwdStep s) + spacing s)\<rparr>"

text \<open>
  Where the forward loop stands: before its first iteration the anchor's entry sits at
  \<open>_physicalMax\<close>; afterwards the entry placed last ends, with the spacing, at
  \<open>_physicalMax\<close>.
\<close>

definition pendingAt :: "int \<Rightarrow> Layout1d \<Rightarrow> bool" where
  "pendingAt a s =
     (if lastIdx s = a
      then (case newPhysicalItems s a of None \<Rightarrow> False | Some b \<Rightarrow> pos b = physicalMax s)
      else (case newPhysicalItems s (lastIdx s - 1) of
              None \<Rightarrow> False
            | Some b \<Rightarrow> pos b + size_b b + spacing s = physicalMax s))"

text \<open>The last index up to which the forward loop has placed bounds.\<close>

definition builtTo :: "int \<Rightarrow> Layout1d \<Rightarrow> int" where
  "builtTo a s = (if lastIdx s = a then a else lastIdx s - 1)"

text \<open>The state between the two loops, and after the forward loop.\<close>

definition afterBack :: "Layout1d \<Rightarrow> int \<Rightarrow> real \<Rightarrow> real \<Rightarrow> real \<Rightarrow> Layout1d" where
  "afterBack s a ap lower upper =
     growBackward (fst (seedWindow s a ap lower upper)) (fst (snd (seedWindow s a ap lower upper)))"

definition afterFwd :: "Layout1d \<Rightarrow> int \<Rightarrow> real \<Rightarrow> real \<Rightarrow> real \<Rightarrow> Layout1d" where
  "afterFwd s a ap lower upper =
     growForward (afterBack s a ap lower upper) (snd (snd (seedWindow s a ap lower upper)))"

text \<open>What choosing the anchor leaves alone.\<close>

definition sameWindows :: "Layout1d \<Rightarrow> Layout1d \<Rightarrow> bool" where
  "sameWindows s t =
     (physicalItems t = physicalItems s \<and> newPhysicalItems t = newPhysicalItems s
      \<and> spacing t = spacing s \<and> totalItems t = totalItems s \<and> scrollSize t = scrollSize s)"

subsection \<open>Settled layouts\<close>

text \<open>A window cut down to the indices from \<open>f\<close> to \<open>l\<close>.\<close>

definition restrictTo :: "(int \<rightharpoonup> ItemBounds) \<Rightarrow> int \<Rightarrow> int \<Rightarrow> (int \<rightharpoonup> ItemBounds)" where
  "restrictTo m f l = (\<lambda>i. if f \<le> i \<and> i \<le> l then m i else None)"

text \<open>The position and the size a window holds for an index, 0 where it holds none.\<close>

definition posAt :: "(int \<rightharpoonup> ItemBounds) \<Rightarrow> int \<Rightarrow> real" where
  "posAt m i = (case m i of None \<Rightarrow> 0 | Some b \<Rightarrow> pos b)"

definition sizeAt :: "(int \<rightharpoonup> ItemBounds) \<Rightarrow> int \<Rightarrow> real" where
  "sizeAt m i = (case m i of None \<Rightarrow> 0 | Some b \<Rightarrow> size_b b)"

text \<open>A window with bounds for every index from \<open>f\<close> to \<open>l\<close>, each adjoining the next.\<close>

definition knownWindow :: "(int \<rightharpoonup> ItemBounds) \<Rightarrow> real \<Rightarrow> int \<Rightarrow> int \<Rightarrow> bool" where
  "knownWindow m sp f l =
     (list_all (\<lambda>i. m i \<noteq> None) [f..l] \<and> contiguous m sp f l)"

text \<open>The backward loop on its way through a known window, down from the anchor \<open>a\<close>.\<close>

definition regrowBack ::
  "(int \<rightharpoonup> ItemBounds) \<Rightarrow> real \<Rightarrow> int \<Rightarrow> int \<Rightarrow> Layout1d \<Rightarrow> bool" where
  "regrowBack m sp f a s =
     (physicalItems s = m \<and> spacing s = sp \<and> f \<le> firstIdx s \<and> firstIdx s \<le> a
      \<and> newPhysicalItems s = restrictTo m (firstIdx s) a
      \<and> physicalMin s = posAt m (firstIdx s) \<and> stable s)"

text \<open>The forward loop on its way through a known window, up from the anchor \<open>a\<close>.\<close>

definition regrowFwd ::
  "(int \<rightharpoonup> ItemBounds) \<Rightarrow> real \<Rightarrow> int \<Rightarrow> int \<Rightarrow> int \<Rightarrow> Layout1d \<Rightarrow> bool" where
  "regrowFwd m sp f a l s =
     (physicalItems s = m \<and> spacing s = sp \<and> a \<le> lastIdx s \<and> lastIdx s \<le> l + 1
      \<and> l < totalItems s
      \<and> newPhysicalItems s = restrictTo m f (max a (lastIdx s - 1))
      \<and> physicalMax s =
          (if lastIdx s \<le> l then posAt m (lastIdx s) else posAt m l + sizeAt m l + sp)
      \<and> stable s)"

text \<open>The interval \<open>[lower, upper]\<close> that \<open>_getActiveItems\<close> hands to \<open>_getItems\<close>.\<close>

definition targetInterval :: "Layout1d \<Rightarrow> real \<times> real" where
  "targetInterval s =
     (let upper = min (scrollSize s) (scrollPosition s + viewDim1 s + overhang s);
          lower = max 0 (upper - viewDim1 s - 2 * overhang s)
      in (lower, upper))"

text \<open>
  The committed window is the cover of an interval: it is a known window inside the list,
  its first item starts at or before \<open>lower\<close> (or is item 0), every later item starts after
  \<open>lower\<close>, every item starts before \<open>upper\<close>, the last item does not end before \<open>lower\<close>,
  and it ends, with the spacing, at or after \<open>upper\<close> (or is the last item of the list).
\<close>

definition coversInterval :: "Layout1d \<Rightarrow> real \<Rightarrow> real \<Rightarrow> bool" where
  "coversInterval s lower upper =
     (knownWindow (physicalItems s) (spacing s) (firstIdx s) (lastIdx s)
      \<and> 0 \<le> firstIdx s \<and> firstIdx s \<le> lastIdx s \<and> lastIdx s < totalItems s
      \<and> (posAt (physicalItems s) (firstIdx s) \<le> lower \<or> firstIdx s = 0)
      \<and> list_all (\<lambda>i. lower < posAt (physicalItems s) i) [firstIdx s + 1..lastIdx s]
      \<and> list_all (\<lambda>i. posAt (physicalItems s) i < upper) [firstIdx s..lastIdx s]
      \<and> lower \<le> posAt (physicalItems s) (lastIdx s) + sizeAt (physicalItems s) (lastIdx s)
      \<and> (upper \<le> posAt (physicalItems s) (lastIdx s) + sizeAt (physicalItems s) (lastIdx s)
                    + spacing s
           \<or> lastIdx s = totalItems s - 1))"

text \<open>
  A settled layout whose window covers the interval of its own scroll position: no anchor is
  kept and no window is in progress, the extent fields are those of the window, the content
  size and the scroll position are up to date, and no extent error is pending.
\<close>

definition settledCover :: "Layout1d \<Rightarrow> bool" where
  "settledCover s =
     (anchorIdx s = None \<and> newPhysicalItems s = Map.empty
      \<and> viewDim1 s \<noteq> 0 \<and> totalItems s \<noteq> 0 \<and> 0 \<le> spacing s
      \<and> physicalMin s = posAt (physicalItems s) (firstIdx s)
      \<and> physicalMax s = posAt (physicalItems s) (lastIdx s)
                           + sizeAt (physicalItems s) (lastIdx s) + spacing s
      \<and> scrollSize s = max (physicalMax s) (of_int (totalItems s) * itemDim1 s)
      \<and> max 0 (min (scrollSize s - viewDim1 s) (scrollPosition s)) = scrollPosition s
      \<and> calculateError s = 0
      \<and> coversInterval s (fst (targetInterval s)) (snd (targetInterval s)))"

subsection \<open>Concrete layouts\<close>

text \<open>
  A layout as the constructor of \<open>Layout1d\<close> leaves its own fields (no window, no anchor,
  nothing measured), with values for the fields of the base class: three items estimated at
  50 along the vertical axis, a viewport of 500, no spacing, no overhang.
\<close>

definition initialLayout :: Layout1d where
  "initialLayout =
     \<lparr>physicalItems = Map.empty, newPhysicalItems = Map.empty, metrics = Map.empty,
      anchorIdx = None, anchorPos = None, stable = True, needsRemeasure = False,
      nMeasured = 0, tMeasured = 0, estimate = True, firstIdx = - 1, lastIdx = - 1,
      physicalMin = 0, physicalMax = 0, itemSize = \<lparr>width = 50, height = 50\<rparr>,
      sizeDim = Height, spacing = 0, delta = 50, scrollPosition = 0, scrollError = 0,
      totalItems = 3, scrollSize = 150, viewDim1 = 500, overhang = 0, events = []\<rparr>"

text \<open>A measured box without margins.\<close>

definition plainBox :: "real \<Rightarrow> real \<Rightarrow> ItemBox" where
  "plainBox w h = \<lparr>width = w, height = h, marginLeft = None, marginRight = None,
                   marginTop = None, marginBottom = None\<rparr>"

text \<open>The initial layout after an unstable pass placed items 0 and 1 at their estimates.\<close>

definition twoItemWindow :: Layout1d where
  "twoItemWindow = initialLayout\<lparr>newPhysicalItems :=
      [0 \<mapsto> \<lparr>pos = 0, size_b = 50\<rparr>, 1 \<mapsto> \<lparr>pos = 50, size_b = 50\<rparr>]\<rparr>"

text \<open>
  Three items with a spacing of 20 in a viewport of extent 10: the first item starts below
  the viewport.
\<close>

definition narrowViewport :: Layout1d where
  "narrowViewport = initialLayout\<lparr>spacing := 20, delta := 70, scrollSize := 210, viewDim1 := 10\<rparr>"

text \<open>
  Three items of size 50 in a committed window, scrolled a whole viewport above the start of
  the content.
\<close>

definition scrolledAbove :: Layout1d where
  "scrolledAbove = initialLayout\<lparr>
      physicalItems := [0 \<mapsto> \<lparr>pos = 0, size_b = 50\<rparr>, 1 \<mapsto> \<lparr>pos = 50, size_b = 50\<rparr>,
                        2 \<mapsto> \<lparr>pos = 100, size_b = 50\<rparr>],
      firstIdx := 0, lastIdx := 2, physicalMax := 150, scrollPosition := - 500\<rparr>"

text \<open>A list of a single item that was never measured.\<close>

definition singleItem :: Layout1d where
  "singleItem = initialLayout\<lparr>totalItems := 1, scrollSize := 50\<rparr>"

text \<open>
  The initial layout after its first pass: the three items are placed at their estimates, the
  pass is unstable and the anchor is kept.
\<close>

definition estimatedThree :: Layout1d where
  "estimatedThree = initialLayout\<lparr>
      newPhysicalItems := [0 \<mapsto> \<lparr>pos = 0, size_b = 50\<rparr>, 1 \<mapsto> \<lparr>pos = 50, size_b = 50\<rparr>,
                           2 \<mapsto> \<lparr>pos = 100, size_b = 50\<rparr>],
      anchorIdx := Some 0, anchorPos := Some 0, stable := False,
      firstIdx := 0, lastIdx := 2, physicalMin := 0, physicalMax := 150\<rparr>"

text \<open>
  Ten items at the end of their list: the window of items 3 to 9 was settled while the items
  were estimated at 100, and the seven items have since been measured at 90, which is now the
  average. Their bounds still have the positions of the settled pass.
\<close>

definition remeasuredEnd :: Layout1d where
  "remeasuredEnd =
     \<lparr>physicalItems =
        [3 \<mapsto> \<lparr>pos = 300, size_b = 90\<rparr>, 4 \<mapsto> \<lparr>pos = 400, size_b = 90\<rparr>,
         5 \<mapsto> \<lparr>pos = 500, size_b = 90\<rparr>, 6 \<mapsto> \<lparr>pos = 600, size_b = 90\<rparr>,
         7 \<mapsto> \<lparr>pos = 700, size_b = 90\<rparr>, 8 \<mapsto> \<lparr>pos = 800, size_b = 90\<rparr>,
         9 \<mapsto> \<lparr>pos = 900, size_b = 90\<rparr>],
      newPhysicalItems = Map.empty, metrics = Map.empty,
      anchorIdx = None, anchorPos = None, stable = True, needsRemeasure = False,
      nMeasured = 7, tMeasured = 630, estimate = True, firstIdx = 3, lastIdx = 9,
      physicalMin = 300, physicalMax = 1000, itemSize = \<lparr>width = 90, height = 90\<rparr>,
      sizeDim = Height, spacing = 0, delta = 90, scrollPosition = 400, scrollError = 0,
      totalItems = 10, scrollSize = 1000, viewDim1 = 500, overhang = 100, events = []\<rparr>"

text \<open>The layout that the pass from \<open>remeasuredEnd\<close> returns from \<open>_getActiveItems\<close>.\<close>

definition passA :: Layout1d where
  "passA = remeasuredEnd\<lparr>
      physicalItems :=
        [3 \<mapsto> \<lparr>pos = 370, size_b = 90\<rparr>, 4 \<mapsto> \<lparr>pos = 460, size_b = 90\<rparr>,
         5 \<mapsto> \<lparr>pos = 550, size_b = 90\<rparr>, 6 \<mapsto> \<lparr>pos = 640, size_b = 90\<rparr>,
         7 \<mapsto> \<lparr>pos = 730, size_b = 90\<rparr>, 8 \<mapsto> \<lparr>pos = 820, size_b = 90\<rparr>,
         9 \<mapsto> \<lparr>pos = 910, size_b = 90\<rparr>],
      anchorIdx := Some 3, anchorPos := Some 370,
      physicalMin := 370, scrollPosition := 470, scrollError := - 70\<rparr>"

text \<open>
  The layout after that pass: the range is the one of the pass before, so the anchor is
  dropped and the layout counts as settled.
\<close>

definition settledEnd :: Layout1d where
  "settledEnd = passA\<lparr>anchorIdx := None, anchorPos := None,
      events := [EmitRange 3 9 False True,
                 EmitChildPositions [(3, 370, 90), (4, 460, 90), (5, 550, 90), (6, 640, 90),
                                     (7, 730, 90), (8, 820, 90), (9, 910, 90)],
                 EmitScrollError (- 70)]\<rparr>"

text \<open>The layout that the next pass, from \<open>settledEnd\<close>, returns from \<open>_getActiveItems\<close>.\<close>

definition passB :: Layout1d where
  "passB = settledEnd\<lparr>
      newPhysicalItems :=
        [2 \<mapsto> \<lparr>pos = 280, size_b = 90\<rparr>, 3 \<mapsto> \<lparr>pos = 370, size_b = 90\<rparr>,
         4 \<mapsto> \<lparr>pos = 460, size_b = 90\<rparr>, 5 \<mapsto> \<lparr>pos = 550, size_b = 90\<rparr>,
         6 \<mapsto> \<lparr>pos = 640, size_b = 90\<rparr>, 7 \<mapsto> \<lparr>pos = 730, size_b = 90\<rparr>,
         8 \<mapsto> \<lparr>pos = 820, size_b = 90\<rparr>, 9 \<mapsto> \<lparr>pos = 910, size_b = 90\<rparr>],
      anchorIdx := Some 3, anchorPos := Some 370, stable := False, firstIdx := 2,
      physicalMin := 280\<rparr>"

text \<open>
  Three items of size 50 in a committed window that fills the content, under a viewport of
  500 at scroll position 0.
\<close>

definition coveredThree :: Layout1d where
  "coveredThree = initialLayout\<lparr>
      physicalItems := [0 \<mapsto> \<lparr>pos = 0, size_b = 50\<rparr>, 1 \<mapsto> \<lparr>pos = 50, size_b = 50\<rparr>,
                        2 \<mapsto> \<lparr>pos = 100, size_b = 50\<rparr>],
      firstIdx := 0, lastIdx := 2, physicalMax := 150\<rparr>"

section \<open>The extent error against its specification\<close>

text \<open>
  C4. \<open>_calculateError\<close> returns the value of the specification's ordered case analysis:
  \<open>physicalMin\<close> when \<open>first = 0\<close>; else \<open>physicalMin - first * delta\<close> when
  \<open>physicalMin \<le> 0\<close>; else \<open>physicalMax - scrollSize\<close> when \<open>last = totalItems - 1\<close>; else
  \<open>(physicalMax - scrollSize) + (totalItems - 1 - last) * delta\<close> when
  \<open>physicalMax \<ge> scrollSize\<close>; else 0.
\<close>

theorem calculateError_spec:
  "calculateError s =
     specError (firstIdx s) (lastIdx s) (totalItems s) (physicalMin s) (physicalMax s)
       (delta s) (scrollSize s)"
  by (simp add: calculateError_def specError_def)

theorem calculateError_spec_witness:
  "calculateError (initialLayout\<lparr>firstIdx := 2, lastIdx := 2, physicalMin := 120,
       physicalMax := 170\<rparr>) = 20
   \<and> specError 2 2 3 120 170 50 150 = 20"
  using calculateError_spec [of "initialLayout\<lparr>firstIdx := 2, lastIdx := 2,
      physicalMin := 120, physicalMax := 170\<rparr>"]
  by (simp add: initialLayout_def specError_def)

section \<open>The empty range\<close>

text \<open>
  C9. A pass entered with no items or with a viewport of extent 0 returns without error,
  with \<open>first = last = -1\<close>, \<open>physicalMin = physicalMax = 0\<close> and the stable flag set.
\<close>

theorem getActiveItems_empty:
  assumes "totalItems s = 0 \<or> viewDim1 s = 0"
  shows "\<exists>s'. getActiveItems s = Some (Inr s') \<and> firstIdx s' = - 1 \<and> lastIdx s' = - 1
           \<and> physicalMin s' = 0 \<and> physicalMax s' = 0 \<and> stable s'"
  using assms by (auto simp: getActiveItems_def clearItems_def)

theorem getActiveItems_empty_witness:
  "totalItems (initialLayout\<lparr>totalItems := 0\<rparr>) = 0
   \<and> (\<exists>s'. getActiveItems (initialLayout\<lparr>totalItems := 0\<rparr>) = Some (Inr s')
         \<and> firstIdx s' = - 1 \<and> lastIdx s' = - 1
         \<and> physicalMin s' = 0 \<and> physicalMax s' = 0 \<and> stable s')"
  using getActiveItems_empty [of "initialLayout\<lparr>totalItems := 0\<rparr>"]
  by simp

section \<open>Items of size zero\<close>

lemma dimOf_setDim_same: "dimOf d (setDim d z v) = v"
  by (cases d) (simp_all add: dimOf_def setDim_def)

lemma dimOf_setDim_secondary: "dimOf d (setDim (secondaryDim d) z v) = dimOf d z"
  by (cases d) (simp_all add: dimOf_def setDim_def secondaryDim_def)

lemma getItemSize_primary:
  "dimOf (sizeDim s) (getItemSize s idx) = orElse (getSize s idx) (itemDim1 s)"
  by (simp add: getItemSize_def dimOf_setDim_secondary dimOf_setDim_same)

text \<open>
  C10. For an index whose recorded size is exactly 0, \<open>_getItemSize\<close> reports the
  estimate \<open>_itemDim1\<close> along the scroll axis, and its whole answer is the one it gives in
  a layout with the same item size where the index has no recorded size at all.
\<close>

theorem getItemSize_zero_as_unmeasured:
  assumes "getSize s idx = Some 0"
  shows "dimOf (sizeDim s) (getItemSize s idx) = itemDim1 s
         \<and> (\<forall>t. sizeDim t = sizeDim s \<and> itemSize t = itemSize s \<and> getSize t idx = None
                \<longrightarrow> getItemSize t idx = getItemSize s idx)"
  using assms
  by (simp add: getItemSize_primary orElse_def)
     (simp add: getItemSize_def orElse_def itemDim1_def itemDim2_def)

theorem getItemSize_zero_as_unmeasured_witness:
  "getSize (initialLayout\<lparr>physicalItems := [1 \<mapsto> \<lparr>pos = 50, size_b = 0\<rparr>]\<rparr>) 1 = Some 0
   \<and> dimOf Height (getItemSize (initialLayout\<lparr>physicalItems := [1 \<mapsto> \<lparr>pos = 50, size_b = 0\<rparr>]\<rparr>) 1) = 50
   \<and> getSize initialLayout 1 = None
   \<and> getItemSize initialLayout 1
       = getItemSize (initialLayout\<lparr>physicalItems := [1 \<mapsto> \<lparr>pos = 50, size_b = 0\<rparr>]\<rparr>) 1"
proof -
  let ?s = "initialLayout\<lparr>physicalItems := [1 \<mapsto> \<lparr>pos = 50, size_b = 0\<rparr>]\<rparr>"
  have h: "getSize ?s 1 = Some 0"
    by (simp add: getSize_def getPhysicalItem_def initialLayout_def)
  have n: "getSize initialLayout 1 = None"
    by (simp add: getSize_def getPhysicalItem_def initialLayout_def)
  have d: "sizeDim ?s = Height" "itemDim1 ?s = 50"
    by (simp_all add: initialLayout_def itemDim1_def dimOf_def)
  from getItemSize_zero_as_unmeasured [OF h] d n h show ?thesis
    by simp
qed

section \<open>The average item size\<close>

lemma setItemSize_fields:
  "metrics (setItemSize s k v) = metrics s"
  "nMeasured (setItemSize s k v) = nMeasured s"
  "tMeasured (setItemSize s k v) = tMeasured s"
  "sizeDim (setItemSize s k v) = sizeDim s"
  "itemSize (setItemSize s k v) = itemSize s"
  "events (setItemSize s k v) = events s"
  by (simp_all add: setItemSize_def split: option.splits)

lemma windowed_alt: "windowed s k = (k \<in> dom (newPhysicalItems s) \<or> k \<in> dom (physicalItems s))"
  by (auto simp: windowed_def getPhysicalItem_def split: option.splits)

lemma setItemSize_dom:
  "dom (newPhysicalItems (setItemSize s k v)) = dom (newPhysicalItems s)"
  "dom (physicalItems (setItemSize s k v)) = dom (physicalItems s)"
  by (auto simp: setItemSize_def split: option.splits)

lemma setItemSize_windowed: "windowed (setItemSize s k v) j = windowed s j"
  by (simp add: windowed_alt setItemSize_dom)

lemma measureItem_fields:
  "sizeDim (measureItem s kb) = sizeDim s"
  "itemSize (measureItem s kb) = itemSize s"
  "events (measureItem s kb) = events s"
  "metrics (measureItem s kb) = (metrics s)(fst kb \<mapsto> effectiveBox (snd kb))"
  by (simp_all add: measureItem_def Let_def setItemSize_fields split: option.splits)

lemma measureItem_windowed: "windowed (measureItem s kb) j = windowed s j"
  by (simp add: measureItem_def Let_def windowed_alt setItemSize_dom split: option.splits)

lemma measureItem_count:
  "nMeasured (measureItem s kb) =
     (if windowed s (fst kb) \<and> metrics s (fst kb) = None then nMeasured s + 1 else nMeasured s)"
  by (auto simp: measureItem_def Let_def windowed_def getPhysicalItem_def setItemSize_fields split: option.splits)









lemma foldl_measureItem_windowed: "windowed (foldl measureItem s xs) j = windowed s j"
  by (induction xs arbitrary: s) (simp_all add: measureItem_windowed)

lemma foldl_measureItem_fields:
  "sizeDim (foldl measureItem s xs) = sizeDim s"
  "itemSize (foldl measureItem s xs) = itemSize s"
  "events (foldl measureItem s xs) = events s"
  by (induction xs arbitrary: s) (simp_all add: measureItem_fields)



lemma foldl_measureItem_count_mono: "nMeasured s \<le> nMeasured (foldl measureItem s xs)"
proof (induction xs arbitrary: s)
  case Nil
  show ?case by simp
next
  case (Cons kb xs)
  have "nMeasured s \<le> nMeasured (measureItem s kb)" by (simp add: measureItem_count)
  also have "\<dots> \<le> nMeasured (foldl measureItem (measureItem s kb) xs)" by (rule Cons.IH)
  finally show ?case by simp
qed

text \<open>An entry adds to the count exactly when its item is windowed and has no metrics yet.\<close>

lemma foldl_measureItem_count_zero:
  "(nMeasured (foldl measureItem s xs) = 0) =
     (nMeasured s = 0 \<and> (\<forall>k \<in> fst ` set xs. \<not> windowed s k \<or> metrics s k \<noteq> None))"
proof (induction xs arbitrary: s)
  case Nil
  show ?case by simp
next
  case (Cons kb xs)
  show ?case
    by (auto simp: Cons.IH measureItem_count measureItem_windowed measureItem_fields)
qed


lemma updateItemSizes_measure_fields:
  "metrics (updateItemSizes s xs) = metrics (foldl measureItem s xs)"
  "nMeasured (updateItemSizes s xs) = nMeasured (foldl measureItem s xs)"
  "tMeasured (updateItemSizes s xs) = tMeasured (foldl measureItem s xs)"
  "sizeDim (updateItemSizes s xs) = sizeDim s"
  by (simp_all add: updateItemSizes_def Let_def updateItemSize_def scheduleReflow_def
        foldl_measureItem_fields)



lemma updateItemSizes_windowed: "windowed (updateItemSizes s xs) j = windowed s j"
  using foldl_measureItem_windowed [of s xs j]
  by (simp add: updateItemSizes_def Let_def updateItemSize_def scheduleReflow_def windowed_alt)

lemma itemDim1_updateItemSize:
  "itemDim1 (updateItemSize s) = of_int (js_round (tMeasured s / of_nat (nMeasured s)))"
  by (simp add: itemDim1_def updateItemSize_def dimOf_setDim_same)

lemma updateItemSizes_average:
  "nMeasured (foldl measureItem s xs) \<noteq> 0 \<Longrightarrow>
   itemDim1 (updateItemSizes s xs) =
     of_int (js_round (tMeasured (foldl measureItem s xs) / of_nat (nMeasured (foldl measureItem s xs))))"
  using itemDim1_updateItemSize [of "foldl measureItem s xs"]
  by (simp add: updateItemSizes_def Let_def scheduleReflow_def itemDim1_def)


lemma foldl_updateItemSizes_windowed: "windowed (foldl updateItemSizes s calls) j = windowed s j"
  by (induction calls arbitrary: s) (simp_all add: updateItemSizes_windowed)







section \<open>The warning of \<open>updateItemSizes\<close>\<close>

lemmas measure_defs = updateItemSizes_def measureItem_def setItemSize_def getPhysicalItem_def
  effectiveBox_def plainBox_def orZero_def updateItemSize_def scheduleReflow_def setDim_def
  dimOf_def js_round_def Let_def

lemma updateItemSizes_events:
  "events (updateItemSizes s xs) =
     events s @ [if nMeasured (foldl measureItem s xs) = 0
                 then Warn ''No items measured yet.'' else ScheduleReflow]"
  by (simp add: updateItemSizes_def Let_def updateItemSize_def scheduleReflow_def
        foldl_measureItem_fields)

lemma updateItemSizes_itemSize_kept:
  "nMeasured (foldl measureItem s xs) = 0 \<Longrightarrow> itemSize (updateItemSizes s xs) = itemSize s"
  by (simp add: updateItemSizes_def Let_def foldl_measureItem_fields)

text \<open>
  C8, amended. \<open>updateItemSizes\<close> is a total function: every call returns. The count it tests
  is the one after the entries of the call have been processed. That count is zero exactly
  when it was zero at the call and no entry is for a windowed item without earlier metrics;
  the call then logs the warning, leaves the item size as it was and schedules no reflow.
  Otherwise it logs no warning, sets the average to \<open>round (total / count)\<close> and schedules a
  reflow.
\<close>

theorem updateItemSizes_outcome:
  "(nMeasured (updateItemSizes s sizes) = 0) =
      (nMeasured s = 0 \<and> (\<forall>k \<in> fst ` set sizes. \<not> windowed s k \<or> metrics s k \<noteq> None))
   \<and> (nMeasured (updateItemSizes s sizes) = 0 \<longrightarrow>
        events (updateItemSizes s sizes) = events s @ [Warn ''No items measured yet.'']
        \<and> itemSize (updateItemSizes s sizes) = itemSize s)
   \<and> (nMeasured (updateItemSizes s sizes) \<noteq> 0 \<longrightarrow>
        events (updateItemSizes s sizes) = events s @ [ScheduleReflow]
        \<and> itemDim1 (updateItemSizes s sizes) =
            of_int (js_round (tMeasured (updateItemSizes s sizes)
                              / of_nat (nMeasured (updateItemSizes s sizes)))))"
proof (intro conjI impI)
  show "(nMeasured (updateItemSizes s sizes) = 0) =
      (nMeasured s = 0 \<and> (\<forall>k \<in> fst ` set sizes. \<not> windowed s k \<or> metrics s k \<noteq> None))"
    by (simp only: updateItemSizes_measure_fields foldl_measureItem_count_zero)
next
  assume "nMeasured (updateItemSizes s sizes) = 0"
  then have z: "nMeasured (foldl measureItem s sizes) = 0"
    by (simp add: updateItemSizes_measure_fields)
  show "events (updateItemSizes s sizes) = events s @ [Warn ''No items measured yet.'']"
    using z by (simp add: updateItemSizes_events)
  show "itemSize (updateItemSizes s sizes) = itemSize s"
    using z by (rule updateItemSizes_itemSize_kept)
next
  assume "nMeasured (updateItemSizes s sizes) \<noteq> 0"
  then have nz: "nMeasured (foldl measureItem s sizes) \<noteq> 0"
    by (simp add: updateItemSizes_measure_fields)
  show "events (updateItemSizes s sizes) = events s @ [ScheduleReflow]"
    using nz by (simp add: updateItemSizes_events)
  show "itemDim1 (updateItemSizes s sizes) =
            of_int (js_round (tMeasured (updateItemSizes s sizes)
                              / of_nat (nMeasured (updateItemSizes s sizes))))"
    using updateItemSizes_average [OF nz] by (simp only: updateItemSizes_measure_fields)
qed

theorem updateItemSizes_outcome_witness:
  "nMeasured (updateItemSizes initialLayout [(7, plainBox 10 40)]) = 0
   \<and> events (updateItemSizes initialLayout [(7, plainBox 10 40)]) = [Warn ''No items measured yet.'']
   \<and> itemSize (updateItemSizes initialLayout [(7, plainBox 10 40)]) = \<lparr>width = 50, height = 50\<rparr>
   \<and> nMeasured (updateItemSizes twoItemWindow [(1, plainBox 10 30), (0, plainBox 10 45)]) = 2
   \<and> events (updateItemSizes twoItemWindow [(1, plainBox 10 30), (0, plainBox 10 45)])
        = [ScheduleReflow]
   \<and> itemDim1 (updateItemSizes twoItemWindow [(1, plainBox 10 30), (0, plainBox 10 45)]) = 38"
proof -
  have pre: "nMeasured initialLayout = 0
      \<and> (\<forall>k \<in> fst ` set [(7::int, plainBox 10 40)]. \<not> windowed initialLayout k \<or> metrics initialLayout k \<noteq> None)"
    by (simp add: initialLayout_def windowed_def getPhysicalItem_def)
  have ev: "events initialLayout = []" and sz: "itemSize initialLayout = \<lparr>width = 50, height = 50\<rparr>"
    by (simp_all add: initialLayout_def)
  have warned: "nMeasured (updateItemSizes initialLayout [(7, plainBox 10 40)]) = 0
   \<and> events (updateItemSizes initialLayout [(7, plainBox 10 40)]) = [Warn ''No items measured yet.'']
   \<and> itemSize (updateItemSizes initialLayout [(7, plainBox 10 40)]) = \<lparr>width = 50, height = 50\<rparr>"
    using updateItemSizes_outcome [of initialLayout "[(7, plainBox 10 40)]"] pre
    by (simp add: ev sz)
  have counted: "nMeasured (updateItemSizes twoItemWindow [(1, plainBox 10 30), (0, plainBox 10 45)]) = 2"
      and total: "tMeasured (updateItemSizes twoItemWindow [(1, plainBox 10 30), (0, plainBox 10 45)]) = 75"
      and ev2: "events twoItemWindow = []"
    by (simp_all add: measure_defs twoItemWindow_def initialLayout_def)
  have averaged: "events (updateItemSizes twoItemWindow [(1, plainBox 10 30), (0, plainBox 10 45)])
        = [ScheduleReflow]
      \<and> itemDim1 (updateItemSizes twoItemWindow [(1, plainBox 10 30), (0, plainBox 10 45)]) = 38"
    using updateItemSizes_outcome [of twoItemWindow "[(1, plainBox 10 30), (0, plainBox 10 45)]"]
    by (simp add: counted total ev2 js_round_def)
  from warned counted averaged show ?thesis
    by blast
qed

text \<open>
  The claim as stated fails for the first measurement of a windowed item: the call is made
  while nothing is counted as measured, yet it logs no warning, it replaces the average and
  it schedules a reflow.
\<close>

theorem updateItemSizes_first_measurement_counterexample:
  "nMeasured twoItemWindow = 0
   \<and> itemDim1 twoItemWindow = 50
   \<and> events (updateItemSizes twoItemWindow [(0, plainBox 10 40)]) = [ScheduleReflow]
   \<and> itemDim1 (updateItemSizes twoItemWindow [(0, plainBox 10 40)]) = 40"
  by (simp add: updateItemSizes_def measureItem_def Let_def twoItemWindow_def initialLayout_def
        getPhysicalItem_def setItemSize_def effectiveBox_def plainBox_def orZero_def dimOf_def
        updateItemSize_def scheduleReflow_def setDim_def js_round_def itemDim1_def)

section \<open>Growing the window\<close>

declare growBackward.simps [simp del]

declare growForward.simps [simp del]

lemma growBackward_relation [case_names stop break continue]:
  assumes stop: "\<And>s. \<not> backCond s lower \<Longrightarrow> P s s"
    and brk: "\<And>s. backCond s lower \<Longrightarrow> breaks (backStep s) \<Longrightarrow> P s (backStep s)"
    and cont: "\<And>s. backCond s lower \<Longrightarrow> \<not> breaks (backStep s) \<Longrightarrow>
                P (backStep s) (growBackward (backStep s) lower) \<Longrightarrow>
                P s (growBackward (backStep s) lower)"
  shows "P s (growBackward s lower)"
proof (induction "nat (firstIdx s)" arbitrary: s rule: less_induct)
  case less
  show ?case
  proof (cases "backCond s lower")
    case False
    then have "growBackward s lower = s"
      by (subst growBackward.simps) (auto simp: backCond_def)
    with stop [OF False] show ?thesis by simp
  next
    case True
    show ?thesis
    proof (cases "breaks (backStep s)")
      case b: True
      then have "growBackward s lower = backStep s"
        using True by (subst growBackward.simps) (auto simp: backCond_def breaks_def Let_def)
      with brk [OF True b] show ?thesis by simp
    next
      case nb: False
      then have eq: "growBackward s lower = growBackward (backStep s) lower"
        using True by (subst growBackward.simps) (auto simp: backCond_def breaks_def Let_def)
      have "nat (firstIdx (backStep s)) < nat (firstIdx s)"
        using True by (simp add: backCond_def backStep_def Let_def)
      then have "P (backStep s) (growBackward (backStep s) lower)"
        by (rule less.hyps)
      from cont [OF True nb this] eq show ?thesis by simp
    qed
  qed
qed

lemma contiguous_iff: "contiguous m sp f l = (\<forall>i. f \<le> i \<and> i < l \<longrightarrow> adjoins m sp i)"
  by (auto simp: contiguous_def list_all_iff)

lemma headAtMin_iff:
  "headAtMin s = (\<exists>b. newPhysicalItems s (firstIdx s) = Some b \<and> pos b = physicalMin s)"
  by (simp add: headAtMin_def split: option.splits)

lemma backStep_fields:
  "firstIdx (backStep s) = firstIdx s - 1"
  "stable (backStep s) = (stable s \<and> getSize s (firstIdx s - 1) \<noteq> None)"
  "physicalMin (backStep s) =
     physicalMin s - ((case getSize s (firstIdx s - 1) of None \<Rightarrow> itemDim1 s | Some z \<Rightarrow> z) + spacing s)"
  "newPhysicalItems (backStep s) =
     (newPhysicalItems s)(firstIdx s - 1 \<mapsto>
        \<lparr>pos = physicalMin s - ((case getSize s (firstIdx s - 1) of None \<Rightarrow> itemDim1 s | Some z \<Rightarrow> z) + spacing s),
         size_b = (case getSize s (firstIdx s - 1) of None \<Rightarrow> itemDim1 s | Some z \<Rightarrow> z)\<rparr>)"
  by (auto simp: backStep_def Let_def split: option.splits)

lemma backStep_shape:
  "backStep s = s\<lparr>firstIdx := firstIdx (backStep s), stable := stable (backStep s),
      physicalMin := physicalMin (backStep s), newPhysicalItems := newPhysicalItems (backStep s)\<rparr>"
  by (simp add: backStep_def Let_def)

lemma growBackward_shape:
  "growBackward s lower =
     s\<lparr>firstIdx := firstIdx (growBackward s lower), stable := stable (growBackward s lower),
       physicalMin := physicalMin (growBackward s lower),
       newPhysicalItems := newPhysicalItems (growBackward s lower)\<rparr>"
proof (rule growBackward_relation [where lower = lower and P = "\<lambda>s s'.
         s' = s\<lparr>firstIdx := firstIdx s', stable := stable s', physicalMin := physicalMin s',
                newPhysicalItems := newPhysicalItems s'\<rparr>"])
  fix s show "s = s\<lparr>firstIdx := firstIdx s, stable := stable s, physicalMin := physicalMin s,
                newPhysicalItems := newPhysicalItems s\<rparr>" by simp
next
  fix s show "backStep s = s\<lparr>firstIdx := firstIdx (backStep s), stable := stable (backStep s),
      physicalMin := physicalMin (backStep s), newPhysicalItems := newPhysicalItems (backStep s)\<rparr>"
    by (rule backStep_shape)
next
  fix s
  let ?r = "growBackward (backStep s) lower"
  assume "?r = (backStep s)\<lparr>firstIdx := firstIdx ?r, stable := stable ?r,
      physicalMin := physicalMin ?r, newPhysicalItems := newPhysicalItems ?r\<rparr>"
  then have "?r = (s\<lparr>firstIdx := firstIdx (backStep s), stable := stable (backStep s),
      physicalMin := physicalMin (backStep s), newPhysicalItems := newPhysicalItems (backStep s)\<rparr>)
        \<lparr>firstIdx := firstIdx ?r, stable := stable ?r,
      physicalMin := physicalMin ?r, newPhysicalItems := newPhysicalItems ?r\<rparr>"
    using backStep_shape [of s] by simp
  then show "?r = s\<lparr>firstIdx := firstIdx ?r, stable := stable ?r,
      physicalMin := physicalMin ?r, newPhysicalItems := newPhysicalItems ?r\<rparr>"
    by simp
qed

lemma growBackward_first:
  "firstIdx (growBackward s lower) \<le> firstIdx s \<and> min 0 (firstIdx s) \<le> firstIdx (growBackward s lower)"
  by (induction rule: growBackward_relation [where lower = lower])
     (auto simp: backStep_fields backCond_def)

lemma growBackward_untouched:
  "i < firstIdx (growBackward s lower) \<or> firstIdx s \<le> i \<Longrightarrow>
   newPhysicalItems (growBackward s lower) i = newPhysicalItems s i"
proof (induction rule: growBackward_relation [where lower = lower])
  case (stop s)
  show ?case by simp
next
  case (break s)
  then show ?case by (auto simp: backStep_fields)
next
  case (continue s)
  have "firstIdx (growBackward (backStep s) lower) \<le> firstIdx s - 1"
    using growBackward_first [of "backStep s" lower] by (simp add: backStep_fields)
  with continue show ?case by (auto simp: backStep_fields)
qed

lemma growBackward_keeps:
  "physicalItems (growBackward s lower) = physicalItems s"
  "spacing (growBackward s lower) = spacing s"
  "lastIdx (growBackward s lower) = lastIdx s"
  "physicalMax (growBackward s lower) = physicalMax s"
  "totalItems (growBackward s lower) = totalItems s"
  "estimate (growBackward s lower) = estimate s"
  "itemSize (growBackward s lower) = itemSize s"
  "sizeDim (growBackward s lower) = sizeDim s"
  "scrollSize (growBackward s lower) = scrollSize s"
  "delta (growBackward s lower) = delta s"
  "anchorIdx (growBackward s lower) = anchorIdx s"
  "anchorPos (growBackward s lower) = anchorPos s"
  "scrollPosition (growBackward s lower) = scrollPosition s"
  "scrollError (growBackward s lower) = scrollError s"
  "viewDim1 (growBackward s lower) = viewDim1 s"
  "overhang (growBackward s lower) = overhang s"
  "events (growBackward s lower) = events s"
  "needsRemeasure (growBackward s lower) = needsRemeasure s"
  "metrics (growBackward s lower) = metrics s"
  "nMeasured (growBackward s lower) = nMeasured s"
  "tMeasured (growBackward s lower) = tMeasured s"
  by (subst growBackward_shape, simp)+

lemma getSize_None_iff: "(getSize s i = None) = (getPhysicalItem s i = None)"
  by (simp add: getSize_def split: option.splits)

lemma growBackward_written:
  "firstIdx (growBackward s lower) \<le> i \<Longrightarrow> i < firstIdx s \<Longrightarrow>
   newPhysicalItems (growBackward s lower) i \<noteq> None"
proof (induction rule: growBackward_relation [where lower = lower])
  case (stop s)
  then show ?case by simp
next
  case (break s)
  then show ?case by (auto simp: backStep_fields)
next
  case (continue s)
  show ?case
  proof (cases "i < firstIdx s - 1")
    case True
    with continue show ?thesis by (simp add: backStep_fields)
  next
    case False
    with continue.prems have "i = firstIdx s - 1" by simp
    moreover have "newPhysicalItems (growBackward (backStep s) lower) (firstIdx s - 1)
          = newPhysicalItems (backStep s) (firstIdx s - 1)"
      by (rule growBackward_untouched) (simp add: backStep_fields)
    ultimately show ?thesis by (simp add: backStep_fields)
  qed
qed

lemma backStep_getPhysicalItem:
  "i \<noteq> firstIdx s - 1 \<Longrightarrow> getPhysicalItem (backStep s) i = getPhysicalItem s i"
  by (simp add: getPhysicalItem_def backStep_def Let_def split: option.splits)

lemma all_single_int: "(\<forall>i::int. f - 1 \<le> i \<and> i < f \<longrightarrow> Q i) = Q (f - 1)"
proof
  assume "\<forall>i. f - 1 \<le> i \<and> i < f \<longrightarrow> Q i"
  then show "Q (f - 1)" by simp
next
  assume q: "Q (f - 1)"
  show "\<forall>i. f - 1 \<le> i \<and> i < f \<longrightarrow> Q i"
  proof (intro allI impI)
    fix i assume "f - 1 \<le> i \<and> i < f"
    then have "i = f - 1" by linarith
    with q show "Q i" by simp
  qed
qed

lemma growBackward_stable:
  "stable (growBackward s lower) =
     (stable s \<and> (\<forall>i. firstIdx (growBackward s lower) \<le> i \<and> i < firstIdx s
                     \<longrightarrow> getPhysicalItem s i \<noteq> None))"
proof (induction rule: growBackward_relation [where lower = lower])
  case (stop s)
  show ?case by auto
next
  case (break s)
  show ?case
    by (simp add: backStep_fields getSize_None_iff all_single_int)
next
  case (continue s)
  let ?r = "growBackward (backStep s) lower"
  have le: "firstIdx ?r \<le> firstIdx s - 1"
    using growBackward_first [of "backStep s" lower] by (simp add: backStep_fields)
  have "(\<forall>i. firstIdx ?r \<le> i \<and> i < firstIdx s \<longrightarrow> getPhysicalItem s i \<noteq> None) =
        (getPhysicalItem s (firstIdx s - 1) \<noteq> None \<and>
         (\<forall>i. firstIdx ?r \<le> i \<and> i < firstIdx s - 1 \<longrightarrow> getPhysicalItem (backStep s) i \<noteq> None))"
    (is "?A = (?B \<and> ?C)")
  proof
    assume a: ?A
    have ?B using a le by simp
    moreover have ?C
    proof (intro allI impI)
      fix i assume i: "firstIdx ?r \<le> i \<and> i < firstIdx s - 1"
      then have eq: "getPhysicalItem (backStep s) i = getPhysicalItem s i"
        by (intro backStep_getPhysicalItem) simp
      from a i have "getPhysicalItem s i \<noteq> None" by simp
      then show "getPhysicalItem (backStep s) i \<noteq> None" by (simp add: eq)
    qed
    ultimately show "?B \<and> ?C" ..
  next
    assume bc: "?B \<and> ?C"
    show ?A
    proof (intro allI impI)
      fix i assume i: "firstIdx ?r \<le> i \<and> i < firstIdx s"
      show "getPhysicalItem s i \<noteq> None"
      proof (cases "i = firstIdx s - 1")
        case True
        with bc show ?thesis by simp
      next
        case False
        with i have lt: "i < firstIdx s - 1" by simp
        have eq: "getPhysicalItem (backStep s) i = getPhysicalItem s i"
          using False by (rule backStep_getPhysicalItem)
        from bc i lt have "getPhysicalItem (backStep s) i \<noteq> None" by blast
        then show ?thesis by (simp add: eq)
      qed
    qed
  qed
  with continue show ?case
    by (simp add: backStep_fields getSize_None_iff)
qed

lemma backStep_keeps:
  "physicalItems (backStep s) = physicalItems s"
  "spacing (backStep s) = spacing s"
  "lastIdx (backStep s) = lastIdx s"
  "physicalMax (backStep s) = physicalMax s"
  by (simp_all add: backStep_def Let_def)

lemma adjoins_upd_other:
  "j \<noteq> i \<Longrightarrow> j \<noteq> i + 1 \<Longrightarrow> adjoins (m(j \<mapsto> v)) sp i = adjoins m sp i"
  by (simp add: adjoins_def split: option.splits)

lemma backStep_chain:
  assumes h: "headAtMin s" and c: "contiguous (newPhysicalItems s) (spacing s) (firstIdx s) a"
  shows "headAtMin (backStep s)"
    and "contiguous (newPhysicalItems (backStep s)) (spacing s) (firstIdx s - 1) a"
proof -
  show "headAtMin (backStep s)"
    by (simp add: headAtMin_iff backStep_fields)
  from h obtain b where b: "newPhysicalItems s (firstIdx s) = Some b" "pos b = physicalMin s"
    by (auto simp: headAtMin_iff)
  show "contiguous (newPhysicalItems (backStep s)) (spacing s) (firstIdx s - 1) a"
    unfolding contiguous_iff
  proof (intro allI impI)
    fix i assume i: "firstIdx s - 1 \<le> i \<and> i < a"
    show "adjoins (newPhysicalItems (backStep s)) (spacing s) i"
    proof (cases "i = firstIdx s - 1")
      case True
      then show ?thesis
        using b by (simp add: adjoins_def backStep_fields)
    next
      case False
      with i have "firstIdx s \<le> i" by simp
      then have "adjoins (newPhysicalItems (backStep s)) (spacing s) i
                 = adjoins (newPhysicalItems s) (spacing s) i"
        by (simp add: backStep_fields adjoins_upd_other)
      moreover have "adjoins (newPhysicalItems s) (spacing s) i"
        using c i \<open>firstIdx s \<le> i\<close> by (simp add: contiguous_iff)
      ultimately show ?thesis by simp
    qed
  qed
qed

lemma growBackward_chain:
  "headAtMin s \<and> contiguous (newPhysicalItems s) (spacing s) (firstIdx s) a \<Longrightarrow>
   headAtMin (growBackward s lower)
   \<and> contiguous (newPhysicalItems (growBackward s lower)) (spacing s)
        (firstIdx (growBackward s lower)) a"
proof (induction rule: growBackward_relation [where lower = lower])
  case (stop s)
  then show ?case by simp
next
  case (break s)
  then have "headAtMin s" "contiguous (newPhysicalItems s) (spacing s) (firstIdx s) a"
    by simp_all
  from backStep_chain [OF this] show ?case
    by (simp only: backStep_fields(1) simp_thms)
next
  case (continue s)
  then have "headAtMin s" "contiguous (newPhysicalItems s) (spacing s) (firstIdx s) a"
    by simp_all
  from backStep_chain [OF this]
  have "headAtMin (backStep s)
        \<and> contiguous (newPhysicalItems (backStep s)) (spacing (backStep s)) (firstIdx (backStep s)) a"
    by (simp only: backStep_fields(1) backStep_keeps simp_thms)
  then show ?case
    using continue.IH by (simp only: backStep_keeps simp_thms)
qed

lemma fwdStep_fields:
  "lastIdx (fst (fwdStep s)) = lastIdx s + 1"
  "stable (fst (fwdStep s)) = (stable s \<and> getSize s (lastIdx s) \<noteq> None)"
  "physicalMax (fst (fwdStep s)) = physicalMax s"
  "snd (fwdStep s) = (case getSize s (lastIdx s) of None \<Rightarrow> itemDim1 s | Some z \<Rightarrow> z)"
  "newPhysicalItems (fst (fwdStep s)) =
     (newPhysicalItems s)(lastIdx s \<mapsto>
        \<lparr>pos = physicalMax s,
         size_b = (case getSize s (lastIdx s) of None \<Rightarrow> itemDim1 s | Some z \<Rightarrow> z)\<rparr>)"
  "estimate (fst (fwdStep s)) = estimate s"
  "spacing (fst (fwdStep s)) = spacing s"
  "totalItems (fst (fwdStep s)) = totalItems s"
  "physicalItems (fst (fwdStep s)) = physicalItems s"
  "firstIdx (fst (fwdStep s)) = firstIdx s"
  "physicalMin (fst (fwdStep s)) = physicalMin s"
  by (auto simp: fwdStep_def Let_def split: option.splits)

lemma fwdNext_fields:
  "lastIdx (fwdNext s) = lastIdx s + 1"
  "stable (fwdNext s) = (stable s \<and> getSize s (lastIdx s) \<noteq> None)"
  "physicalMax (fwdNext s) =
     physicalMax s + ((case getSize s (lastIdx s) of None \<Rightarrow> itemDim1 s | Some z \<Rightarrow> z) + spacing s)"
  "newPhysicalItems (fwdNext s) = newPhysicalItems (fst (fwdStep s))"
  "estimate (fwdNext s) = estimate s"
  "spacing (fwdNext s) = spacing s"
  "totalItems (fwdNext s) = totalItems s"
  "physicalItems (fwdNext s) = physicalItems s"
  "firstIdx (fwdNext s) = firstIdx s"
  "physicalMin (fwdNext s) = physicalMin s"
  by (simp_all add: fwdNext_def fwdStep_fields)

lemma growForward_relation [case_names stop break continue]:
  assumes stop: "\<And>s. \<not> fwdCond s upper \<Longrightarrow> P s s"
    and brk: "\<And>s. fwdCond s upper \<Longrightarrow> breaks (fst (fwdStep s)) \<Longrightarrow> P s (fst (fwdStep s))"
    and cont: "\<And>s. fwdCond s upper \<Longrightarrow> \<not> breaks (fst (fwdStep s)) \<Longrightarrow>
                P (fwdNext s) (growForward (fwdNext s) upper) \<Longrightarrow>
                P s (growForward (fwdNext s) upper)"
  shows "P s (growForward s upper)"
proof (induction "nat (totalItems s - lastIdx s)" arbitrary: s rule: less_induct)
  case less
  show ?case
  proof (cases "fwdCond s upper")
    case False
    then have "growForward s upper = s"
      by (subst growForward.simps) (auto simp: fwdCond_def)
    with stop [OF False] show ?thesis by simp
  next
    case True
    show ?thesis
    proof (cases "breaks (fst (fwdStep s))")
      case b: True
      then have "growForward s upper = fst (fwdStep s)"
        using True by (subst growForward.simps) (auto simp: fwdCond_def breaks_def Let_def)
      with brk [OF True b] show ?thesis by simp
    next
      case nb: False
      then have eq: "growForward s upper = growForward (fwdNext s) upper"
        using True
        by (subst growForward.simps)
           (auto simp: fwdCond_def breaks_def Let_def fwdNext_def fwdStep_fields)
      have "nat (totalItems (fwdNext s) - lastIdx (fwdNext s)) < nat (totalItems s - lastIdx s)"
        using True by (simp add: fwdCond_def fwdNext_fields)
      then have "P (fwdNext s) (growForward (fwdNext s) upper)"
        by (rule less.hyps)
      from cont [OF True nb this] eq show ?thesis by simp
    qed
  qed
qed

lemma fwdStep_shape:
  "fst (fwdStep s) = s\<lparr>stable := stable (fst (fwdStep s)),
      newPhysicalItems := newPhysicalItems (fst (fwdStep s)),
      lastIdx := lastIdx (fst (fwdStep s)), physicalMax := physicalMax (fst (fwdStep s))\<rparr>"
  by (simp add: fwdStep_def Let_def)

lemma fwdNext_shape:
  "fwdNext s = s\<lparr>stable := stable (fwdNext s),
      newPhysicalItems := newPhysicalItems (fwdNext s),
      lastIdx := lastIdx (fwdNext s), physicalMax := physicalMax (fwdNext s)\<rparr>"
  by (simp add: fwdNext_def fwdStep_def Let_def)

lemma growForward_shape:
  "growForward s upper =
     s\<lparr>stable := stable (growForward s upper),
       newPhysicalItems := newPhysicalItems (growForward s upper),
       lastIdx := lastIdx (growForward s upper),
       physicalMax := physicalMax (growForward s upper)\<rparr>"
proof (rule growForward_relation [where upper = upper and P = "\<lambda>s s'.
         s' = s\<lparr>stable := stable s', newPhysicalItems := newPhysicalItems s',
                lastIdx := lastIdx s', physicalMax := physicalMax s'\<rparr>"])
  fix s show "s = s\<lparr>stable := stable s, newPhysicalItems := newPhysicalItems s,
                lastIdx := lastIdx s, physicalMax := physicalMax s\<rparr>" by simp
next
  fix s show "fst (fwdStep s) = s\<lparr>stable := stable (fst (fwdStep s)),
      newPhysicalItems := newPhysicalItems (fst (fwdStep s)),
      lastIdx := lastIdx (fst (fwdStep s)), physicalMax := physicalMax (fst (fwdStep s))\<rparr>"
    by (rule fwdStep_shape)
next
  fix s
  let ?r = "growForward (fwdNext s) upper"
  assume "?r = (fwdNext s)\<lparr>stable := stable ?r, newPhysicalItems := newPhysicalItems ?r,
                lastIdx := lastIdx ?r, physicalMax := physicalMax ?r\<rparr>"
  then have "?r = (s\<lparr>stable := stable (fwdNext s),
      newPhysicalItems := newPhysicalItems (fwdNext s),
      lastIdx := lastIdx (fwdNext s), physicalMax := physicalMax (fwdNext s)\<rparr>)
        \<lparr>stable := stable ?r, newPhysicalItems := newPhysicalItems ?r,
                lastIdx := lastIdx ?r, physicalMax := physicalMax ?r\<rparr>"
    using fwdNext_shape [of s] by simp
  then show "?r = s\<lparr>stable := stable ?r, newPhysicalItems := newPhysicalItems ?r,
                lastIdx := lastIdx ?r, physicalMax := physicalMax ?r\<rparr>"
    by simp
qed

lemma growForward_keeps:
  "physicalItems (growForward s upper) = physicalItems s"
  "spacing (growForward s upper) = spacing s"
  "firstIdx (growForward s upper) = firstIdx s"
  "physicalMin (growForward s upper) = physicalMin s"
  "totalItems (growForward s upper) = totalItems s"
  "estimate (growForward s upper) = estimate s"
  "itemSize (growForward s upper) = itemSize s"
  "sizeDim (growForward s upper) = sizeDim s"
  "scrollSize (growForward s upper) = scrollSize s"
  "delta (growForward s upper) = delta s"
  "anchorIdx (growForward s upper) = anchorIdx s"
  "anchorPos (growForward s upper) = anchorPos s"
  "scrollPosition (growForward s upper) = scrollPosition s"
  "scrollError (growForward s upper) = scrollError s"
  "viewDim1 (growForward s upper) = viewDim1 s"
  "overhang (growForward s upper) = overhang s"
  "events (growForward s upper) = events s"
  "needsRemeasure (growForward s upper) = needsRemeasure s"
  "metrics (growForward s upper) = metrics s"
  "nMeasured (growForward s upper) = nMeasured s"
  "tMeasured (growForward s upper) = tMeasured s"
  by (subst growForward_shape, simp)+

lemma growForward_last:
  "lastIdx s \<le> lastIdx (growForward s upper)
   \<and> lastIdx (growForward s upper) \<le> max (lastIdx s) (totalItems s)"
  by (induction rule: growForward_relation [where upper = upper])
     (auto simp: fwdStep_fields fwdNext_fields fwdCond_def)

lemma growForward_untouched:
  "i < lastIdx s \<or> lastIdx (growForward s upper) \<le> i \<Longrightarrow>
   newPhysicalItems (growForward s upper) i = newPhysicalItems s i"
proof (induction rule: growForward_relation [where upper = upper])
  case (stop s)
  show ?case by simp
next
  case (break s)
  then show ?case by (auto simp: fwdStep_fields)
next
  case (continue s)
  have "lastIdx s + 1 \<le> lastIdx (growForward (fwdNext s) upper)"
    using growForward_last [of "fwdNext s" upper] by (simp add: fwdNext_fields)
  with continue show ?case by (auto simp: fwdNext_fields fwdStep_fields)
qed

lemma growForward_written:
  "lastIdx s \<le> i \<Longrightarrow> i < lastIdx (growForward s upper) \<Longrightarrow>
   newPhysicalItems (growForward s upper) i \<noteq> None"
proof (induction rule: growForward_relation [where upper = upper])
  case (stop s)
  then show ?case by simp
next
  case (break s)
  then show ?case by (auto simp: fwdStep_fields)
next
  case (continue s)
  show ?case
  proof (cases "lastIdx s < i")
    case True
    with continue show ?thesis by (simp add: fwdNext_fields)
  next
    case False
    with continue.prems have "i = lastIdx s" by simp
    moreover have "newPhysicalItems (growForward (fwdNext s) upper) (lastIdx s)
          = newPhysicalItems (fwdNext s) (lastIdx s)"
      by (rule growForward_untouched) (simp add: fwdNext_fields)
    ultimately show ?thesis by (simp add: fwdNext_fields fwdStep_fields)
  qed
qed

lemma fwdNext_getPhysicalItem:
  "i \<noteq> lastIdx s \<Longrightarrow> getPhysicalItem (fwdNext s) i = getPhysicalItem s i"
  by (simp add: getPhysicalItem_def fwdNext_fields fwdStep_fields split: option.splits)

lemma all_split_first_int:
  "l < (u::int) \<Longrightarrow> (\<forall>i. l \<le> i \<and> i < u \<longrightarrow> Q i) = (Q l \<and> (\<forall>i. l + 1 \<le> i \<and> i < u \<longrightarrow> Q i))"
proof
  assume "l < u" and a: "\<forall>i. l \<le> i \<and> i < u \<longrightarrow> Q i"
  then show "Q l \<and> (\<forall>i. l + 1 \<le> i \<and> i < u \<longrightarrow> Q i)" by simp
next
  assume lu: "l < u" and b: "Q l \<and> (\<forall>i. l + 1 \<le> i \<and> i < u \<longrightarrow> Q i)"
  show "\<forall>i. l \<le> i \<and> i < u \<longrightarrow> Q i"
  proof (intro allI impI)
    fix i assume i: "l \<le> i \<and> i < u"
    show "Q i"
    proof (cases "i = l")
      case True
      with b show ?thesis by simp
    next
      case False
      with i have "l + 1 \<le> i \<and> i < u" by simp
      with b show ?thesis by blast
    qed
  qed
qed

lemma growForward_stable:
  "stable (growForward s upper) =
     (stable s \<and> (\<forall>i. lastIdx s \<le> i \<and> i < lastIdx (growForward s upper)
                     \<longrightarrow> getPhysicalItem s i \<noteq> None))"
proof (induction rule: growForward_relation [where upper = upper])
  case (stop s)
  show ?case by auto
next
  case (break s)
  have "(\<forall>i. lastIdx s \<le> i \<and> i < lastIdx s + 1 \<longrightarrow> getPhysicalItem s i \<noteq> None)
        = (getPhysicalItem s (lastIdx s) \<noteq> None)"
    using all_single_int [of "lastIdx s + 1" "\<lambda>i. getPhysicalItem s i \<noteq> None"] by simp
  then show ?case
    by (simp add: fwdStep_fields getSize_None_iff)
next
  case (continue s)
  let ?r = "growForward (fwdNext s) upper"
  have lt: "lastIdx s < lastIdx ?r"
    using growForward_last [of "fwdNext s" upper] by (simp add: fwdNext_fields)
  have same: "(\<forall>i. lastIdx s + 1 \<le> i \<and> i < lastIdx ?r \<longrightarrow> getPhysicalItem (fwdNext s) i \<noteq> None)
        = (\<forall>i. lastIdx s + 1 \<le> i \<and> i < lastIdx ?r \<longrightarrow> getPhysicalItem s i \<noteq> None)"
  proof (intro iff_allI imp_cong refl)
    fix i assume "lastIdx s + 1 \<le> i \<and> i < lastIdx ?r"
    then have "i \<noteq> lastIdx s" by simp
    then show "(getPhysicalItem (fwdNext s) i \<noteq> None) = (getPhysicalItem s i \<noteq> None)"
      by (simp add: fwdNext_getPhysicalItem)
  qed
  show ?case
    unfolding all_split_first_int [OF lt]
    using continue.IH same
    by (simp add: fwdNext_fields getSize_None_iff)
qed

lemma fwdStep_chain:
  assumes al: "a \<le> lastIdx s" and fa: "firstIdx s \<le> a"
    and p: "pendingAt a s" and h: "headAtMin s"
    and c: "contiguous (newPhysicalItems s) (spacing s) (firstIdx s) (builtTo a s)"
  shows "headAtMin (fst (fwdStep s))"
    and "contiguous (newPhysicalItems (fst (fwdStep s))) (spacing s) (firstIdx s) (lastIdx s)"
    and "pendingAt a (fwdNext s)"
proof -
  let ?sz = "case getSize s (lastIdx s) of None \<Rightarrow> itemDim1 s | Some z \<Rightarrow> z"
  let ?e = "\<lparr>pos = physicalMax s, size_b = ?sz\<rparr>"
  have new': "newPhysicalItems (fst (fwdStep s)) = (newPhysicalItems s)(lastIdx s \<mapsto> ?e)"
    by (rule fwdStep_fields)
  show "pendingAt a (fwdNext s)"
    using al by (simp add: pendingAt_def fwdNext_fields new')
  show "headAtMin (fst (fwdStep s))"
  proof (cases "lastIdx s = a")
    case True
    with p obtain b where b: "newPhysicalItems s a = Some b" "pos b = physicalMax s"
      by (auto simp: pendingAt_def split: option.splits)
    then have "getSize s a = Some (size_b b)"
      by (simp add: getSize_def getPhysicalItem_def)
    with b True have "?e = b" by simp
    with b True have "newPhysicalItems (fst (fwdStep s)) = newPhysicalItems s"
      by (simp only: new' map_upd_triv)
    with h show ?thesis
      by (simp add: headAtMin_iff fwdStep_fields)
  next
    case False
    with al fa have "firstIdx s \<noteq> lastIdx s" by simp
    with h show ?thesis
      by (simp add: headAtMin_iff fwdStep_fields)
  qed
  show "contiguous (newPhysicalItems (fst (fwdStep s))) (spacing s) (firstIdx s) (lastIdx s)"
  proof (cases "lastIdx s = a")
    case True
    with p obtain b where b: "newPhysicalItems s a = Some b" "pos b = physicalMax s"
      by (auto simp: pendingAt_def split: option.splits)
    then have "getSize s a = Some (size_b b)"
      by (simp add: getSize_def getPhysicalItem_def)
    with b True have "?e = b" by simp
    with b True have "newPhysicalItems (fst (fwdStep s)) = newPhysicalItems s"
      by (simp only: new' map_upd_triv)
    with c True show ?thesis by (simp add: builtTo_def)
  next
    case False
    with p obtain b where b: "newPhysicalItems s (lastIdx s - 1) = Some b"
        "pos b + size_b b + spacing s = physicalMax s"
      by (auto simp: pendingAt_def split: option.splits)
    from c False have c': "contiguous (newPhysicalItems s) (spacing s) (firstIdx s) (lastIdx s - 1)"
      by (simp add: builtTo_def)
    show ?thesis
      unfolding contiguous_iff
    proof (intro allI impI)
      fix i assume i: "firstIdx s \<le> i \<and> i < lastIdx s"
      show "adjoins (newPhysicalItems (fst (fwdStep s))) (spacing s) i"
      proof (cases "i = lastIdx s - 1")
        case True
        then show ?thesis
          using b by (simp add: adjoins_def new')
      next
        case False
        with i have lt: "i < lastIdx s - 1" by simp
        then have "adjoins (newPhysicalItems (fst (fwdStep s))) (spacing s) i
                   = adjoins (newPhysicalItems s) (spacing s) i"
          by (simp add: new' adjoins_upd_other)
        moreover have "adjoins (newPhysicalItems s) (spacing s) i"
          using c' i lt by (simp add: contiguous_iff)
        ultimately show ?thesis by simp
      qed
    qed
  qed
qed

lemma growForward_chain:
  "a \<le> lastIdx s \<and> firstIdx s \<le> a \<and> pendingAt a s \<and> headAtMin s
   \<and> contiguous (newPhysicalItems s) (spacing s) (firstIdx s) (builtTo a s) \<Longrightarrow>
   headAtMin (growForward s upper)
   \<and> contiguous (newPhysicalItems (growForward s upper)) (spacing s) (firstIdx s)
        (builtTo a (growForward s upper))"
proof (induction rule: growForward_relation [where upper = upper])
  case (stop s)
  then show ?case by simp
next
  case (break s)
  then have pre: "a \<le> lastIdx s" "firstIdx s \<le> a" "pendingAt a s" "headAtMin s"
    "contiguous (newPhysicalItems s) (spacing s) (firstIdx s) (builtTo a s)"
    by simp_all
  have "builtTo a (fst (fwdStep s)) = lastIdx s"
    using pre(1) by (simp add: builtTo_def fwdStep_fields)
  with fwdStep_chain(1,2) [OF pre] show ?case
    by simp
next
  case (continue s)
  then have pre: "a \<le> lastIdx s" "firstIdx s \<le> a" "pendingAt a s" "headAtMin s"
    "contiguous (newPhysicalItems s) (spacing s) (firstIdx s) (builtTo a s)"
    by simp_all
  have bt: "builtTo a (fwdNext s) = lastIdx s"
    using pre(1) by (simp add: builtTo_def fwdNext_fields)
  have hd: "headAtMin (fwdNext s)"
    using fwdStep_chain(1) [OF pre] by (simp add: headAtMin_iff fwdNext_fields fwdStep_fields(10,11))
  have "a \<le> lastIdx (fwdNext s) \<and> firstIdx (fwdNext s) \<le> a \<and> pendingAt a (fwdNext s)
        \<and> headAtMin (fwdNext s)
        \<and> contiguous (newPhysicalItems (fwdNext s)) (spacing (fwdNext s)) (firstIdx (fwdNext s))
             (builtTo a (fwdNext s))"
    using fwdStep_chain(2,3) [OF pre] pre(1,2) hd
    by (simp add: bt fwdNext_fields(1,4,6,9))
  from continue.IH [OF this] show ?case
    by (simp add: fwdNext_fields(6,9))
qed

lemma seedWindow_fields:
  "firstIdx (fst (seedWindow s a ap lower upper)) = a"
  "lastIdx (fst (seedWindow s a ap lower upper)) = a"
  "physicalMin (fst (seedWindow s a ap lower upper)) = ap"
  "physicalMax (fst (seedWindow s a ap lower upper)) = ap"
  "stable (fst (seedWindow s a ap lower upper))"
  "newPhysicalItems (fst (seedWindow s a ap lower upper)) =
     (newPhysicalItems s)(a \<mapsto> \<lparr>pos = ap,
        size_b = (case getSize s a of None \<Rightarrow> itemDim1 s | Some z \<Rightarrow> z)\<rparr>)"
  "physicalItems (fst (seedWindow s a ap lower upper)) = physicalItems s"
  "spacing (fst (seedWindow s a ap lower upper)) = spacing s"
  "totalItems (fst (seedWindow s a ap lower upper)) = totalItems s"
  "scrollSize (fst (seedWindow s a ap lower upper)) = scrollSize s"
  "anchorIdx (fst (seedWindow s a ap lower upper)) = anchorIdx s"
  "itemSize (fst (seedWindow s a ap lower upper)) = itemSize s"
  "sizeDim (fst (seedWindow s a ap lower upper)) = sizeDim s"
  by (simp_all add: seedWindow_def Let_def)

lemma seedWindow_getPhysicalItem:
  "i \<noteq> a \<Longrightarrow> getPhysicalItem (fst (seedWindow s a ap lower upper)) i = getPhysicalItem s i"
  by (simp add: getPhysicalItem_def seedWindow_fields split: option.splits)

lemma seedWindow_anchor_known:
  "getPhysicalItem (fst (seedWindow s a ap lower upper)) a \<noteq> None"
  by (simp add: getPhysicalItem_def seedWindow_fields)

lemma growWindow_alt:
  "growWindow s a ap lower upper =
     (afterFwd s a ap lower upper)\<lparr>lastIdx := lastIdx (afterFwd s a ap lower upper) - 1\<rparr>"
  by (simp add: growWindow_def afterFwd_def afterBack_def Let_def)

lemma afterBack_facts:
  "firstIdx (afterBack s a ap lower upper) \<le> a"
  "min 0 a \<le> firstIdx (afterBack s a ap lower upper)"
  "lastIdx (afterBack s a ap lower upper) = a"
  "physicalMax (afterBack s a ap lower upper) = ap"
  "physicalItems (afterBack s a ap lower upper) = physicalItems s"
  "spacing (afterBack s a ap lower upper) = spacing s"
  "totalItems (afterBack s a ap lower upper) = totalItems s"
  using growBackward_first [of "fst (seedWindow s a ap lower upper)" "fst (snd (seedWindow s a ap lower upper))"]
  by (simp_all add: afterBack_def growBackward_keeps seedWindow_fields)

lemma afterBack_chain:
  "headAtMin (afterBack s a ap lower upper)"
  "contiguous (newPhysicalItems (afterBack s a ap lower upper)) (spacing s)
     (firstIdx (afterBack s a ap lower upper)) a"
proof -
  let ?t = "fst (seedWindow s a ap lower upper)"
  have "headAtMin ?t \<and> contiguous (newPhysicalItems ?t) (spacing ?t) (firstIdx ?t) a"
    by (auto simp: headAtMin_iff contiguous_iff seedWindow_fields)
  from growBackward_chain [OF this]
  show "headAtMin (afterBack s a ap lower upper)"
    and "contiguous (newPhysicalItems (afterBack s a ap lower upper)) (spacing s)
     (firstIdx (afterBack s a ap lower upper)) a"
    by (simp_all add: afterBack_def seedWindow_fields)
qed

lemma afterBack_anchor:
  "newPhysicalItems (afterBack s a ap lower upper) a =
     Some \<lparr>pos = ap, size_b = (case getSize s a of None \<Rightarrow> itemDim1 s | Some z \<Rightarrow> z)\<rparr>"
proof -
  let ?t = "fst (seedWindow s a ap lower upper)"
  have "newPhysicalItems (afterBack s a ap lower upper) a = newPhysicalItems ?t a"
    unfolding afterBack_def by (rule growBackward_untouched) (simp add: seedWindow_fields)
  then show ?thesis by (simp add: seedWindow_fields)
qed

lemma afterBack_pending: "pendingAt a (afterBack s a ap lower upper)"
  by (simp add: pendingAt_def afterBack_facts afterBack_anchor)

lemma afterFwd_facts:
  "firstIdx (afterFwd s a ap lower upper) = firstIdx (afterBack s a ap lower upper)"
  "physicalMin (afterFwd s a ap lower upper) = physicalMin (afterBack s a ap lower upper)"
  "a \<le> lastIdx (afterFwd s a ap lower upper)"
  "lastIdx (afterFwd s a ap lower upper) \<le> max a (totalItems s)"
  "physicalItems (afterFwd s a ap lower upper) = physicalItems s"
  "spacing (afterFwd s a ap lower upper) = spacing s"
  "totalItems (afterFwd s a ap lower upper) = totalItems s"
  using growForward_last [of "afterBack s a ap lower upper" "snd (snd (seedWindow s a ap lower upper))"]
  by (simp_all add: afterFwd_def growForward_keeps afterBack_facts)

lemma afterFwd_chain:
  "headAtMin (afterFwd s a ap lower upper)"
  "contiguous (newPhysicalItems (afterFwd s a ap lower upper)) (spacing s)
     (firstIdx (afterFwd s a ap lower upper)) (builtTo a (afterFwd s a ap lower upper))"
proof -
  let ?t = "afterBack s a ap lower upper"
  have "a \<le> lastIdx ?t \<and> firstIdx ?t \<le> a \<and> pendingAt a ?t \<and> headAtMin ?t
        \<and> contiguous (newPhysicalItems ?t) (spacing ?t) (firstIdx ?t) (builtTo a ?t)"
    using afterBack_chain [of s a ap lower upper]
    by (simp add: afterBack_facts afterBack_pending builtTo_def)
  from growForward_chain [OF this]
  show "headAtMin (afterFwd s a ap lower upper)"
    and "contiguous (newPhysicalItems (afterFwd s a ap lower upper)) (spacing s)
     (firstIdx (afterFwd s a ap lower upper)) (builtTo a (afterFwd s a ap lower upper))"
    by (simp_all add: afterFwd_def afterBack_facts growForward_keeps)
qed

lemma contiguous_shorter: "contiguous m sp f l \<Longrightarrow> l' \<le> l \<Longrightarrow> contiguous m sp f l'"
  by (simp add: contiguous_iff)

lemma growWindow_fields:
  "firstIdx (growWindow s a ap lower upper) = firstIdx (afterBack s a ap lower upper)"
  "lastIdx (growWindow s a ap lower upper) = lastIdx (afterFwd s a ap lower upper) - 1"
  "newPhysicalItems (growWindow s a ap lower upper) = newPhysicalItems (afterFwd s a ap lower upper)"
  "physicalItems (growWindow s a ap lower upper) = physicalItems s"
  "spacing (growWindow s a ap lower upper) = spacing s"
  "totalItems (growWindow s a ap lower upper) = totalItems s"
  "stable (growWindow s a ap lower upper) = stable (afterFwd s a ap lower upper)"
  "physicalMin (growWindow s a ap lower upper) = physicalMin (afterBack s a ap lower upper)"
  by (simp_all add: growWindow_alt afterFwd_facts)

lemma growWindow_chain:
  "headAtMin (growWindow s a ap lower upper)"
  "contiguous (newPhysicalItems (growWindow s a ap lower upper)) (spacing s)
     (firstIdx (growWindow s a ap lower upper)) (lastIdx (growWindow s a ap lower upper))"
proof -
  show "headAtMin (growWindow s a ap lower upper)"
    using afterFwd_chain(1) [of s a ap lower upper]
    by (simp add: headAtMin_iff growWindow_fields afterFwd_facts)
  have "lastIdx (afterFwd s a ap lower upper) - 1 \<le> builtTo a (afterFwd s a ap lower upper)"
    by (simp add: builtTo_def)
  from contiguous_shorter [OF afterFwd_chain(2) this]
  show "contiguous (newPhysicalItems (growWindow s a ap lower upper)) (spacing s)
     (firstIdx (growWindow s a ap lower upper)) (lastIdx (growWindow s a ap lower upper))"
    by (simp add: growWindow_fields afterFwd_facts)
qed

lemma getPhysicalItem_cong:
  "newPhysicalItems s i = newPhysicalItems t i \<Longrightarrow> physicalItems s i = physicalItems t i \<Longrightarrow>
   getPhysicalItem s i = getPhysicalItem t i"
  by (simp add: getPhysicalItem_def split: option.splits)

lemma afterBack_getPhysicalItem:
  assumes "a \<le> i"
  shows "getPhysicalItem (afterBack s a ap lower upper) i
         = getPhysicalItem (fst (seedWindow s a ap lower upper)) i"
proof -
  let ?t = "fst (seedWindow s a ap lower upper)"
  have "newPhysicalItems (afterBack s a ap lower upper) i = newPhysicalItems ?t i"
    unfolding afterBack_def using assms
    by (intro growBackward_untouched) (simp add: seedWindow_fields)
  then show ?thesis
    by (rule getPhysicalItem_cong) (simp add: afterBack_facts seedWindow_fields)
qed

lemma afterBack_stable:
  "stable (afterBack s a ap lower upper) =
     (\<forall>i. firstIdx (afterBack s a ap lower upper) \<le> i \<and> i < a \<longrightarrow> getPhysicalItem s i \<noteq> None)"
proof -
  let ?t = "fst (seedWindow s a ap lower upper)"
  have "stable (afterBack s a ap lower upper) =
     (\<forall>i. firstIdx (afterBack s a ap lower upper) \<le> i \<and> i < a \<longrightarrow> getPhysicalItem ?t i \<noteq> None)"
    unfolding afterBack_def
    by (subst growBackward_stable) (simp add: seedWindow_fields)
  also have "\<dots> = (\<forall>i. firstIdx (afterBack s a ap lower upper) \<le> i \<and> i < a
                        \<longrightarrow> getPhysicalItem s i \<noteq> None)"
  proof (intro iff_allI imp_cong refl)
    fix i assume "firstIdx (afterBack s a ap lower upper) \<le> i \<and> i < a"
    then have "i \<noteq> a" by simp
    then show "(getPhysicalItem ?t i \<noteq> None) = (getPhysicalItem s i \<noteq> None)"
      by (simp add: seedWindow_getPhysicalItem)
  qed
  finally show ?thesis .
qed

lemma afterFwd_stable:
  "stable (afterFwd s a ap lower upper) =
     (stable (afterBack s a ap lower upper)
      \<and> (\<forall>i. a < i \<and> i < lastIdx (afterFwd s a ap lower upper) \<longrightarrow> getPhysicalItem s i \<noteq> None))"
proof -
  let ?b = "afterBack s a ap lower upper" and ?f = "afterFwd s a ap lower upper"
  let ?t = "fst (seedWindow s a ap lower upper)"
  have "stable ?f = (stable ?b \<and> (\<forall>i. a \<le> i \<and> i < lastIdx ?f \<longrightarrow> getPhysicalItem ?b i \<noteq> None))"
    unfolding afterFwd_def
    by (subst growForward_stable) (simp add: afterBack_facts)
  also have "(\<forall>i. a \<le> i \<and> i < lastIdx ?f \<longrightarrow> getPhysicalItem ?b i \<noteq> None)
             = (\<forall>i. a < i \<and> i < lastIdx ?f \<longrightarrow> getPhysicalItem s i \<noteq> None)"
  proof (intro iffI allI impI)
    fix i assume h: "\<forall>i. a \<le> i \<and> i < lastIdx ?f \<longrightarrow> getPhysicalItem ?b i \<noteq> None"
      and i: "a < i \<and> i < lastIdx ?f"
    then have "getPhysicalItem ?b i \<noteq> None" by simp
    moreover have "getPhysicalItem ?b i = getPhysicalItem s i"
      using i by (simp add: afterBack_getPhysicalItem seedWindow_getPhysicalItem)
    ultimately show "getPhysicalItem s i \<noteq> None" by simp
  next
    fix i assume h: "\<forall>i. a < i \<and> i < lastIdx ?f \<longrightarrow> getPhysicalItem s i \<noteq> None"
      and i: "a \<le> i \<and> i < lastIdx ?f"
    show "getPhysicalItem ?b i \<noteq> None"
    proof (cases "i = a")
      case True
      then show ?thesis
        by (simp add: afterBack_getPhysicalItem seedWindow_anchor_known)
    next
      case False
      with i have "a < i" by simp
      with h i have "getPhysicalItem s i \<noteq> None" by simp
      moreover have "getPhysicalItem ?b i = getPhysicalItem s i"
        using \<open>a < i\<close> by (simp add: afterBack_getPhysicalItem seedWindow_getPhysicalItem)
      ultimately show ?thesis by simp
    qed
  qed
  finally show ?thesis .
qed

text \<open>
  The flag after the two loops: every index of the range other than the anchor had bounds,
  in one of the two windows, when the pass started.
\<close>

lemma growWindow_stable:
  "stable (growWindow s a ap lower upper) =
     (\<forall>i. firstIdx (growWindow s a ap lower upper) \<le> i
           \<and> i \<le> lastIdx (growWindow s a ap lower upper) \<and> i \<noteq> a
           \<longrightarrow> getPhysicalItem s i \<noteq> None)"
proof -
  let ?b = "afterBack s a ap lower upper" and ?f = "afterFwd s a ap lower upper"
  have fa: "firstIdx ?b \<le> a" and al: "a \<le> lastIdx ?f"
    by (rule afterBack_facts, rule afterFwd_facts)
  have "(\<forall>i. firstIdx ?b \<le> i \<and> i \<le> lastIdx ?f - 1 \<and> i \<noteq> a \<longrightarrow> getPhysicalItem s i \<noteq> None)
        = ((\<forall>i. firstIdx ?b \<le> i \<and> i < a \<longrightarrow> getPhysicalItem s i \<noteq> None)
           \<and> (\<forall>i. a < i \<and> i < lastIdx ?f \<longrightarrow> getPhysicalItem s i \<noteq> None))"
    (is "?L = (?A \<and> ?B)")
  proof
    assume l: ?L
    have ?A
    proof (intro allI impI)
      fix i assume "firstIdx ?b \<le> i \<and> i < a"
      with al have "firstIdx ?b \<le> i \<and> i \<le> lastIdx ?f - 1 \<and> i \<noteq> a" by simp
      with l show "getPhysicalItem s i \<noteq> None" by blast
    qed
    moreover have ?B
    proof (intro allI impI)
      fix i assume "a < i \<and> i < lastIdx ?f"
      with fa have "firstIdx ?b \<le> i \<and> i \<le> lastIdx ?f - 1 \<and> i \<noteq> a" by simp
      with l show "getPhysicalItem s i \<noteq> None" by blast
    qed
    ultimately show "?A \<and> ?B" ..
  next
    assume ab: "?A \<and> ?B"
    show ?L
    proof (intro allI impI)
      fix i assume i: "firstIdx ?b \<le> i \<and> i \<le> lastIdx ?f - 1 \<and> i \<noteq> a"
      then consider "firstIdx ?b \<le> i \<and> i < a" | "a < i \<and> i < lastIdx ?f" by linarith
      then show "getPhysicalItem s i \<noteq> None"
        using ab by cases blast+
    qed
  qed
  then show ?thesis
    by (simp add: growWindow_fields afterFwd_stable afterBack_stable)
qed

text \<open>Every index of the range has bounds in the window that was grown.\<close>

lemma growWindow_range_written:
  assumes "firstIdx (growWindow s a ap lower upper) \<le> i"
    and "i \<le> lastIdx (growWindow s a ap lower upper)"
  shows "newPhysicalItems (growWindow s a ap lower upper) i \<noteq> None"
proof -
  let ?b = "afterBack s a ap lower upper" and ?f = "afterFwd s a ap lower upper"
  from assms have i: "firstIdx ?b \<le> i" "i < lastIdx ?f"
    by (simp_all add: growWindow_fields)
  show ?thesis
  proof (cases "i < a")
    case True
    have "newPhysicalItems ?b i \<noteq> None"
      unfolding afterBack_def
      using i(1) True
      by (intro growBackward_written) (simp_all add: afterBack_def seedWindow_fields)
    moreover have "newPhysicalItems ?f i = newPhysicalItems ?b i"
      unfolding afterFwd_def using True
      by (intro growForward_untouched) (simp add: afterBack_facts)
    ultimately show ?thesis by (simp add: growWindow_fields)
  next
    case False
    have "newPhysicalItems ?f i \<noteq> None"
      unfolding afterFwd_def using False i(2)
      by (intro growForward_written) (simp_all add: afterBack_facts afterFwd_def)
    then show ?thesis by (simp add: growWindow_fields)
  qed
qed

lemma correctExtent_keeps:
  "firstIdx (correctExtent s) = firstIdx s"
  "lastIdx (correctExtent s) = lastIdx s"
  "stable (correctExtent s) = stable s"
  "spacing (correctExtent s) = spacing s"
  "physicalItems (correctExtent s) = physicalItems s"
  "totalItems (correctExtent s) = totalItems s"
  "scrollSize (correctExtent s) = scrollSize s"
  by (simp_all add: correctExtent_def Let_def)

lemma correctExtent_extent:
  "physicalMin (correctExtent s) = physicalMin s - calculateError s"
  "physicalMax (correctExtent s) = physicalMax s - calculateError s"
  by (simp_all add: correctExtent_def Let_def)

lemma correctExtent_items:
  "newPhysicalItems (correctExtent s) i =
     (case newPhysicalItems s i of
        None \<Rightarrow> None
      | Some item \<Rightarrow> Some (item\<lparr>pos := pos item - calculateError s\<rparr>))"
  by (simp add: correctExtent_def Let_def split: option.splits)

lemma correctExtent_dom:
  "(newPhysicalItems (correctExtent s) i = None) = (newPhysicalItems s i = None)"
  by (simp add: correctExtent_items split: option.splits)



lemma correctExtent_head: "headAtMin s \<Longrightarrow> headAtMin (correctExtent s)"
  by (auto simp: headAtMin_iff correctExtent_keeps correctExtent_extent correctExtent_items)


lemma withState_Inr: "withState s r = Inr (a, s1) \<Longrightarrow> s1 = s"
  by (cases r) (simp_all add: withState_def)

lemma sameWindows_refl: "sameWindows s s"
  by (simp add: sameWindows_def)

lemma sameWindows_consoleError: "sameWindows s (consoleError s msg)"
  by (simp add: sameWindows_def consoleError_def)

lemma withState_sameWindows:
  "withState t r = Inr (a, s1) \<Longrightarrow> sameWindows s t \<Longrightarrow> sameWindows s s1"
  by (cases r) (simp_all add: withState_def)

lemma getAnchor_sameWindows:
  assumes "getAnchor s lower upper = Some (Inr (a, s1))"
  shows "sameWindows s s1"
  using assms
  by (auto simp: getAnchor_def Let_def sameWindows_refl split: if_splits option.splits
        elim: withState_sameWindows [OF _ sameWindows_refl]
              withState_sameWindows [OF _ sameWindows_consoleError])

lemma resolveAnchor_sameWindows:
  assumes "resolveAnchor s lower upper = Some (Inr (s1, a, ap))"
  shows "sameWindows s s1"
proof -
  have u: "sameWindows s t \<Longrightarrow> sameWindows s (t\<lparr>anchorIdx := x, anchorPos := y\<rparr>)" for t x y
    by (simp add: sameWindows_def)
  from assms show ?thesis
    by (auto simp: resolveAnchor_def sameWindows_refl split: option.splits sum.splits
          intro!: u dest: getAnchor_sameWindows)
qed

lemma getItems_Inr:
  assumes "getItems s lower upper = Some (Inr s')"
  obtains s1 a ap where "resolveAnchor s lower upper = Some (Inr (s1, a, ap))"
    and "s' = commitWindow (buildWindow s1 a ap lower upper)"
  using assms by (auto simp: getItems_def split: option.splits sum.splits)

lemma commitWindow_fields:
  "stable (commitWindow w) = stable w"
  "firstIdx (commitWindow w) = firstIdx w"
  "lastIdx (commitWindow w) = lastIdx w"
  "spacing (commitWindow w) = spacing w"
  "physicalItems (commitWindow w) = (if stable w then newPhysicalItems w else physicalItems w)"
  "newPhysicalItems (commitWindow w) = (if stable w then Map.empty else newPhysicalItems w)"
  by (simp_all add: commitWindow_def)

lemma buildWindow_fields:
  "stable (buildWindow s a ap lower upper) = stable (growWindow s a ap lower upper)"
  "firstIdx (buildWindow s a ap lower upper) = firstIdx (growWindow s a ap lower upper)"
  "lastIdx (buildWindow s a ap lower upper) = lastIdx (growWindow s a ap lower upper)"
  "spacing (buildWindow s a ap lower upper) = spacing s"
  "physicalItems (buildWindow s a ap lower upper) = physicalItems s"
  "totalItems (buildWindow s a ap lower upper) = totalItems s"
  "scrollSize (buildWindow s a ap lower upper) = scrollSize (growWindow s a ap lower upper)"
  by (simp_all add: buildWindow_def correctExtent_keeps growWindow_fields)


text \<open>The flag, the commit and what an unstable pass leaves in place.\<close>

lemma getItems_commit:
  assumes "getItems s lower upper = Some (Inr s')"
  shows "\<exists>s1 a ap. resolveAnchor s lower upper = Some (Inr (s1, a, ap))
      \<and> stable s' = stable (buildWindow s1 a ap lower upper)
      \<and> (stable s' = (\<forall>i. firstIdx s' \<le> i \<and> i \<le> lastIdx s' \<and> i \<noteq> a \<longrightarrow> windowed s i))
      \<and> (stable s' \<longrightarrow> physicalItems s' = newPhysicalItems (buildWindow s1 a ap lower upper)
                          \<and> newPhysicalItems s' = Map.empty)
      \<and> (\<not> stable s' \<longrightarrow> physicalItems s' = physicalItems s
                          \<and> newPhysicalItems s' = newPhysicalItems (buildWindow s1 a ap lower upper))
      \<and> ((physicalItems s' = newPhysicalItems (buildWindow s1 a ap lower upper)) = stable s')"
proof -
  from assms obtain s1 a ap where
    ra: "resolveAnchor s lower upper = Some (Inr (s1, a, ap))"
    and s': "s' = commitWindow (buildWindow s1 a ap lower upper)"
    by (rule getItems_Inr)
  let ?g = "growWindow s1 a ap lower upper" and ?w = "buildWindow s1 a ap lower upper"
  from resolveAnchor_sameWindows [OF ra]
  have same: "physicalItems s1 = physicalItems s" "newPhysicalItems s1 = newPhysicalItems s"
    by (simp_all add: sameWindows_def)
  then have win: "windowed s i = (getPhysicalItem s1 i \<noteq> None)" for i
    unfolding windowed_def by (subst getPhysicalItem_cong [of s i s1]) simp_all
  have flag: "stable ?w = (\<forall>i. firstIdx ?w \<le> i \<and> i \<le> lastIdx ?w \<and> i \<noteq> a \<longrightarrow> windowed s i)"
    by (simp only: buildWindow_fields growWindow_stable win)
  have unstable_differs: "physicalItems s \<noteq> newPhysicalItems ?w" if "\<not> stable ?w"
  proof -
    from that flag obtain i where i: "firstIdx ?w \<le> i" "i \<le> lastIdx ?w" "\<not> windowed s i"
      by blast
    then have "physicalItems s i = None"
      by (simp add: windowed_alt domIff)
    moreover have "newPhysicalItems ?g i \<noteq> None"
      using i(1,2) by (intro growWindow_range_written) (simp_all add: buildWindow_fields)
    then have "newPhysicalItems ?w i \<noteq> None"
      by (simp add: buildWindow_def correctExtent_dom)
    ultimately show ?thesis by metis
  qed
  show ?thesis
  proof (intro exI conjI)
    show "resolveAnchor s lower upper = Some (Inr (s1, a, ap))" by (rule ra)
    show "stable s' = stable ?w" by (simp add: s' commitWindow_fields)
    show "stable s' = (\<forall>i. firstIdx s' \<le> i \<and> i \<le> lastIdx s' \<and> i \<noteq> a \<longrightarrow> windowed s i)"
      using flag by (simp add: s' commitWindow_fields)
    show "stable s' \<longrightarrow> physicalItems s' = newPhysicalItems ?w \<and> newPhysicalItems s' = Map.empty"
      by (simp add: s' commitWindow_fields)
    show "\<not> stable s' \<longrightarrow> physicalItems s' = physicalItems s \<and> newPhysicalItems s' = newPhysicalItems ?w"
      by (simp add: s' commitWindow_fields buildWindow_fields same)
    show "(physicalItems s' = newPhysicalItems ?w) = stable s'"
      using unstable_differs
      by (auto simp: s' commitWindow_fields buildWindow_fields same)
  qed
qed

text \<open>
  C3, amended. After the extent-error correction of a growth pass: if the window starts at
  index 0 then \<open>physicalMin\<close> is 0 and the bounds of item 0 have position exactly 0; if
  the window ends at the last index, does not start at index 0 and had its start right of 0
  before the correction, then \<open>physicalMax\<close> equals \<open>scrollSize\<close>.
\<close>

theorem buildWindow_pinned:
  "(firstIdx (buildWindow s a ap lower upper) = 0 \<longrightarrow>
      physicalMin (buildWindow s a ap lower upper) = 0
      \<and> (\<exists>b. newPhysicalItems (buildWindow s a ap lower upper) 0 = Some b \<and> pos b = 0))
   \<and> (firstIdx (buildWindow s a ap lower upper) \<noteq> 0
       \<and> 0 < physicalMin (growWindow s a ap lower upper)
       \<and> lastIdx (buildWindow s a ap lower upper) = totalItems s - 1 \<longrightarrow>
      physicalMax (buildWindow s a ap lower upper) = scrollSize (buildWindow s a ap lower upper))"
proof (intro conjI impI)
  let ?g = "growWindow s a ap lower upper"
  assume f0: "firstIdx (buildWindow s a ap lower upper) = 0"
  then have g0: "firstIdx ?g = 0" by (simp add: buildWindow_fields)
  then have err: "calculateError ?g = physicalMin ?g" by (simp add: calculateError_def)
  show "physicalMin (buildWindow s a ap lower upper) = 0"
    by (simp add: buildWindow_def correctExtent_extent err)
  have "headAtMin (correctExtent ?g)"
    by (intro correctExtent_head growWindow_chain)
  then show "\<exists>b. newPhysicalItems (buildWindow s a ap lower upper) 0 = Some b \<and> pos b = 0"
    using g0 by (simp add: headAtMin_iff buildWindow_def correctExtent_keeps correctExtent_extent err)
next
  let ?g = "growWindow s a ap lower upper"
  assume "firstIdx (buildWindow s a ap lower upper) \<noteq> 0 \<and> 0 < physicalMin ?g
       \<and> lastIdx (buildWindow s a ap lower upper) = totalItems s - 1"
  then have "calculateError ?g = physicalMax ?g - scrollSize ?g"
    by (simp add: calculateError_def buildWindow_fields growWindow_fields)
  then show "physicalMax (buildWindow s a ap lower upper) = scrollSize (buildWindow s a ap lower upper)"
    by (simp add: buildWindow_def correctExtent_extent correctExtent_keeps)
qed

section \<open>Settled layouts as fixed points of a pass\<close>

lemma knownWindow_present: "knownWindow m sp f l \<Longrightarrow> f \<le> i \<Longrightarrow> i \<le> l \<Longrightarrow>
    m i = Some \<lparr>pos = posAt m i, size_b = sizeAt m i\<rparr>"
proof -
  assume "knownWindow m sp f l" "f \<le> i" "i \<le> l"
  then have "m i \<noteq> None" by (auto simp: knownWindow_def list_all_iff)
  then obtain b where "m i = Some b" by blast
  then show ?thesis by (simp add: posAt_def sizeAt_def)
qed

lemma knownWindow_next: "knownWindow m sp f l \<Longrightarrow> f \<le> i \<Longrightarrow> i < l \<Longrightarrow>
    posAt m i + sizeAt m i + sp = posAt m (i + 1)"
  by (auto simp: knownWindow_def contiguous_iff adjoins_def posAt_def sizeAt_def
        split: option.splits)

lemma restrictTo_extend_down:
  "m (i - 1) = Some b \<Longrightarrow> i \<le> a \<Longrightarrow> (restrictTo m i a)(i - 1 \<mapsto> b) = restrictTo m (i - 1) a"
  by (auto simp: restrictTo_def fun_eq_iff)

lemma regrowBack_step:
  assumes k: "knownWindow m sp f a" and r: "regrowBack m sp f a s" and gt: "f < firstIdx s"
  shows "regrowBack m sp f a (backStep s)" and "\<not> breaks (backStep s)"
proof -
  let ?i = "firstIdx s"
  from r have fs: "physicalItems s = m" "spacing s = sp" "?i \<le> a"
    "newPhysicalItems s = restrictTo m ?i a" "physicalMin s = posAt m ?i" "stable s"
    by (simp_all add: regrowBack_def)
  have rng: "f \<le> ?i - 1" "?i - 1 \<le> a" "?i - 1 < a"
    using gt fs(3) by linarith+
  have prev: "m (?i - 1) = Some \<lparr>pos = posAt m (?i - 1), size_b = sizeAt m (?i - 1)\<rparr>"
    using k rng(1,2) by (rule knownWindow_present)
  have "newPhysicalItems s (?i - 1) = None"
    by (simp add: fs(4) restrictTo_def)
  then have gs: "getSize s (?i - 1) = Some (sizeAt m (?i - 1))"
    using prev by (simp add: getSize_def getPhysicalItem_def fs(1))
  have nx: "posAt m (?i - 1) + sizeAt m (?i - 1) + sp = posAt m ?i"
    using knownWindow_next [OF k rng(1,3)] by simp
  then have eqp: "posAt m ?i - (sizeAt m (?i - 1) + sp) = posAt m (?i - 1)"
    by linarith
  have pm: "physicalMin (backStep s) = posAt m (?i - 1)"
    by (simp add: backStep_fields gs fs eqp)
  have new: "newPhysicalItems (backStep s) = restrictTo m (?i - 1) a"
    using restrictTo_extend_down [of m "firstIdx s", OF prev fs(3)]
    by (simp add: backStep_fields gs fs eqp)
  show "regrowBack m sp f a (backStep s)"
    using gt fs pm new
    by (simp add: regrowBack_def backStep_fields(1,2) backStep_keeps gs)
  show "\<not> breaks (backStep s)"
    by (simp add: breaks_def backStep_fields gs fs)
qed

lemma growBackward_regrow:
  assumes k: "knownWindow m sp f a" and f0: "0 \<le> f"
    and low: "posAt m f \<le> lower \<or> f = 0"
    and above: "\<forall>i. f < i \<and> i \<le> a \<longrightarrow> lower < posAt m i"
  shows "regrowBack m sp f a s \<Longrightarrow>
         regrowBack m sp f a (growBackward s lower) \<and> firstIdx (growBackward s lower) = f"
proof (induction rule: growBackward_relation [where lower = lower])
  case (stop s)
  have "\<not> f < firstIdx s"
  proof
    assume gt: "f < firstIdx s"
    from stop have "firstIdx s \<le> a" "physicalMin s = posAt m (firstIdx s)"
      by (simp_all add: regrowBack_def)
    with above gt f0 have "backCond s lower" by (simp add: backCond_def)
    with stop show False by simp
  qed
  with stop show ?case by (simp add: regrowBack_def)
next
  case (break s)
  have gt: "f < firstIdx s"
  proof (rule ccontr)
    assume "\<not> f < firstIdx s"
    with break.prems have "firstIdx s = f" "physicalMin s = posAt m f"
      by (simp_all add: regrowBack_def)
    with low break.hyps(1) show False by (auto simp: backCond_def)
  qed
  from regrowBack_step(2) [OF k break.prems gt] break.hyps(2) show ?case by simp
next
  case (continue s)
  have gt: "f < firstIdx s"
  proof (rule ccontr)
    assume "\<not> f < firstIdx s"
    with continue.prems have "firstIdx s = f" "physicalMin s = posAt m f"
      by (simp_all add: regrowBack_def)
    with low continue.hyps(1) show False by (auto simp: backCond_def)
  qed
  from regrowBack_step(1) [OF k continue.prems gt] continue.IH show ?case by simp
qed

lemma restrictTo_extend_up:
  "m i = Some b \<Longrightarrow> f \<le> a \<Longrightarrow> a \<le> i \<Longrightarrow>
   (restrictTo m f (max a (i - 1)))(i \<mapsto> b) = restrictTo m f i"
  by (auto simp: restrictTo_def fun_eq_iff)

lemma regrowFwd_step:
  assumes k: "knownWindow m sp f l" and fa: "f \<le> a"
    and r: "regrowFwd m sp f a l s" and le: "lastIdx s \<le> l"
  shows "regrowFwd m sp f a l (fwdNext s)" and "\<not> breaks (fst (fwdStep s))"
proof -
  let ?i = "lastIdx s"
  from r have fs: "physicalItems s = m" "spacing s = sp" "a \<le> ?i" "l < totalItems s"
    "newPhysicalItems s = restrictTo m f (max a (?i - 1))" "physicalMax s = posAt m ?i" "stable s"
    using le by (simp_all add: regrowFwd_def)
  have rng: "f \<le> ?i" using fa fs(3) by linarith
  have cur: "m ?i = Some \<lparr>pos = posAt m ?i, size_b = sizeAt m ?i\<rparr>"
    using k rng le by (rule knownWindow_present)
  have "getPhysicalItem s ?i = m ?i"
    using rng by (simp add: getPhysicalItem_def fs(1,5) restrictTo_def split: option.splits)
  then have gs: "getSize s ?i = Some (sizeAt m ?i)"
    using cur by (simp add: getSize_def)
  have new: "newPhysicalItems (fwdNext s) = restrictTo m f (max a ?i)"
    using restrictTo_extend_up [of m ?i _ f a, OF cur fa fs(3)] fs(3)
    by (simp add: fwdNext_fields fwdStep_fields gs fs max_absorb2)
  have pmx: "physicalMax (fwdNext s) =
      (if ?i + 1 \<le> l then posAt m (?i + 1) else posAt m l + sizeAt m l + sp)"
  proof (cases "?i < l")
    case True
    with knownWindow_next [OF k rng True] show ?thesis
      by (simp add: fwdNext_fields gs fs)
  next
    case False
    have "physicalMax (fwdNext s) = posAt m ?i + (sizeAt m ?i + sp)"
      by (simp add: fwdNext_fields gs fs)
    moreover from False le have "?i = l" by simp
    ultimately show ?thesis by simp
  qed
  show "regrowFwd m sp f a l (fwdNext s)"
    using fs le new pmx by (simp add: regrowFwd_def fwdNext_fields gs)
  show "\<not> breaks (fst (fwdStep s))"
    by (simp add: breaks_def fwdStep_fields gs fs)
qed

lemma growForward_regrow:
  assumes k: "knownWindow m sp f l" and fa: "f \<le> a"
    and below: "\<forall>i. a \<le> i \<and> i \<le> l \<longrightarrow> posAt m i < upper"
    and ends: "upper \<le> posAt m l + sizeAt m l + sp \<or> l = n - 1"
  shows "regrowFwd m sp f a l s \<Longrightarrow> totalItems s = n \<Longrightarrow>
         regrowFwd m sp f a l (growForward s upper) \<and> lastIdx (growForward s upper) = l + 1"
proof (induction rule: growForward_relation [where upper = upper])
  case (stop s)
  have "\<not> lastIdx s \<le> l"
  proof
    assume le: "lastIdx s \<le> l"
    from stop.prems le have "a \<le> lastIdx s" "physicalMax s = posAt m (lastIdx s)"
      "l < totalItems s"
      by (simp_all add: regrowFwd_def)
    with below le have "fwdCond s upper" by (simp add: fwdCond_def)
    with stop show False by simp
  qed
  with stop.prems show ?case by (simp add: regrowFwd_def)
next
  case (break s)
  have le: "lastIdx s \<le> l"
  proof (rule ccontr)
    assume "\<not> lastIdx s \<le> l"
    with break.prems have "lastIdx s = l + 1" "physicalMax s = posAt m l + sizeAt m l + sp"
      by (simp_all add: regrowFwd_def)
    with ends break.hyps(1) break.prems(2) show False by (auto simp: fwdCond_def)
  qed
  from regrowFwd_step(2) [OF k fa break.prems(1) le] break.hyps(2) show ?case by simp
next
  case (continue s)
  have le: "lastIdx s \<le> l"
  proof (rule ccontr)
    assume "\<not> lastIdx s \<le> l"
    with continue.prems have "lastIdx s = l + 1" "physicalMax s = posAt m l + sizeAt m l + sp"
      by (simp_all add: regrowFwd_def)
    with ends continue.hyps(1) continue.prems(2) show False by (auto simp: fwdCond_def)
  qed
  from regrowFwd_step(1) [OF k fa continue.prems(1) le] continue.IH continue.prems(2)
  show ?case by (simp add: fwdNext_fields)
qed

lemma knownWindow_shorter: "knownWindow m sp f l \<Longrightarrow> a \<le> l \<Longrightarrow> knownWindow m sp f a"
  by (auto simp: knownWindow_def list_all_iff contiguous_iff)

lemma restrictTo_single: "m a = Some b \<Longrightarrow> [a \<mapsto> b] = restrictTo m a a"
  by (auto simp: restrictTo_def fun_eq_iff)

text \<open>
  Growing from any anchor inside a known window that covers the interval puts back the same
  bounds, the same range and the same extent.
\<close>

lemma growWindow_regrow:
  assumes k: "knownWindow m sp f l" and f0: "0 \<le> f" and fa: "f \<le> a" and al: "a \<le> l"
    and low: "posAt m f \<le> lower \<or> f = 0"
    and above: "\<forall>i. f < i \<and> i \<le> l \<longrightarrow> lower < posAt m i"
    and below: "\<forall>i. f \<le> i \<and> i \<le> l \<longrightarrow> posAt m i < upper"
    and ends: "upper \<le> posAt m l + sizeAt m l + sp \<or> l = totalItems s - 1"
    and reach: "lower \<le> posAt m a + sizeAt m a + sp"
    and s: "physicalItems s = m" "spacing s = sp" "newPhysicalItems s = Map.empty"
      "l < totalItems s"
  shows "growWindow s a (posAt m a) lower upper =
           s\<lparr>newPhysicalItems := restrictTo m f l, firstIdx := f, lastIdx := l,
             physicalMin := posAt m f, physicalMax := posAt m l + sizeAt m l + sp,
             stable := True\<rparr>"
proof -
  let ?ap = "posAt m a"
  let ?sd = "seedWindow s a ?ap lower upper"
  have ma: "m a = Some \<lparr>pos = ?ap, size_b = sizeAt m a\<rparr>"
    using k fa al by (rule knownWindow_present)
  have gs: "getSize s a = Some (sizeAt m a)"
    using ma by (simp add: getSize_def getPhysicalItem_def s)
  have up: "\<not> ?ap > upper"
    using below fa al by (simp add: not_less less_imp_le)
  have sd: "fst ?sd = s\<lparr>newPhysicalItems := restrictTo m a a, firstIdx := a, lastIdx := a,
                physicalMin := ?ap, physicalMax := ?ap, stable := True\<rparr>"
      "fst (snd ?sd) = lower" "snd (snd ?sd) = upper"
    using reach up restrictTo_single [of m a, OF ma]
    by (simp_all add: seedWindow_def Let_def gs s)
  let ?t = "fst ?sd"
  have ka: "knownWindow m sp f a" using k al by (rule knownWindow_shorter)
  have rb0: "regrowBack m sp f a ?t"
    using fa by (simp add: regrowBack_def sd s)
  have above_a: "\<forall>i. f < i \<and> i \<le> a \<longrightarrow> lower < posAt m i"
    using above al by auto
  let ?gb = "growBackward ?t lower"
  from growBackward_regrow [OF ka f0 low above_a rb0]
  have rb: "regrowBack m sp f a ?gb" and gbf: "firstIdx ?gb = f" by simp_all
  have gbk: "lastIdx ?gb = a" "physicalMax ?gb = ?ap" "totalItems ?gb = totalItems s"
    by (simp_all add: growBackward_keeps sd)
  have rf0: "regrowFwd m sp f a l ?gb"
    using rb al fa s(4) by (simp add: regrowFwd_def regrowBack_def gbk gbf max_absorb1)
  have below_a: "\<forall>i. a \<le> i \<and> i \<le> l \<longrightarrow> posAt m i < upper"
    using below fa by auto
  let ?gf = "growForward ?gb upper"
  from growForward_regrow [OF k fa below_a ends rf0 gbk(3)]
  have rf: "regrowFwd m sp f a l ?gf" and gfl: "lastIdx ?gf = l + 1" by simp_all
  from rf gfl al have gfv: "newPhysicalItems ?gf = restrictTo m f l"
    "physicalMax ?gf = posAt m l + sizeAt m l + sp" "stable ?gf"
    by (simp_all add: regrowFwd_def max_absorb2)
  from rb gbf have gbv: "physicalMin ?gb = posAt m f"
    by (simp add: regrowBack_def)
  have "growWindow s a ?ap lower upper = ?gf\<lparr>lastIdx := l\<rparr>"
    by (simp add: growWindow_def Let_def sd(2,3) gfl)
  also have "?gf = ?gb\<lparr>stable := True, newPhysicalItems := restrictTo m f l,
                        lastIdx := l + 1, physicalMax := posAt m l + sizeAt m l + sp\<rparr>"
    using growForward_shape [of ?gb upper] by (simp only: gfv gfl simp_thms)
  also have "?gb = ?t\<lparr>firstIdx := f, stable := stable ?gb, physicalMin := posAt m f,
                        newPhysicalItems := newPhysicalItems ?gb\<rparr>"
    using growBackward_shape [of ?t lower] by (simp only: gbf gbv)
  finally show ?thesis
    by (simp add: sd(1))
qed

lemma getActiveItems_interval:
  "viewDim1 s \<noteq> 0 \<Longrightarrow> totalItems s \<noteq> 0 \<Longrightarrow>
   getActiveItems s = getItems s (fst (targetInterval s)) (snd (targetInterval s))"
  by (simp add: getActiveItems_def targetInterval_def Let_def)

lemma coversInterval_facts:
  assumes "coversInterval s lower upper"
  shows "knownWindow (physicalItems s) (spacing s) (firstIdx s) (lastIdx s)"
    and "0 \<le> firstIdx s" and "firstIdx s \<le> lastIdx s" and "lastIdx s < totalItems s"
    and "posAt (physicalItems s) (firstIdx s) \<le> lower \<or> firstIdx s = 0"
    and "\<forall>i. firstIdx s < i \<and> i \<le> lastIdx s \<longrightarrow> lower < posAt (physicalItems s) i"
    and "\<forall>i. firstIdx s \<le> i \<and> i \<le> lastIdx s \<longrightarrow> posAt (physicalItems s) i < upper"
    and "lower \<le> posAt (physicalItems s) (lastIdx s) + sizeAt (physicalItems s) (lastIdx s)"
    and "upper \<le> posAt (physicalItems s) (lastIdx s) + sizeAt (physicalItems s) (lastIdx s)
                    + spacing s \<or> lastIdx s = totalItems s - 1"
  using assms by (auto simp: coversInterval_def list_all_iff)

text \<open>Over a window that covers the interval, the anchor is its first or its last item.\<close>

lemma getAnchor_covered:
  assumes c: "coversInterval s lower upper" and n: "newPhysicalItems s = Map.empty"
  shows "getAnchor s lower upper = Some (Inr (firstIdx s, s))
         \<or> getAnchor s lower upper = Some (Inr (lastIdx s, s))"
proof -
  let ?m = "physicalItems s" and ?f = "firstIdx s" and ?l = "lastIdx s"
  note cf = coversInterval_facts [OF c]
  have mf: "?m ?f = Some \<lparr>pos = posAt ?m ?f, size_b = sizeAt ?m ?f\<rparr>"
    using cf(1) _ cf(3) by (rule knownWindow_present) simp
  have ml: "?m ?l = Some \<lparr>pos = posAt ?m ?l, size_b = sizeAt ?m ?l\<rparr>"
    using cf(1,3) by (rule knownWindow_present) simp
  have ne: "?m \<noteq> Map.empty" using mf by auto
  have gf: "getPhysicalItem s ?f = Some \<lparr>pos = posAt ?m ?f, size_b = sizeAt ?m ?f\<rparr>"
    and gl: "getPhysicalItem s ?l = Some \<lparr>pos = posAt ?m ?l, size_b = sizeAt ?m ?l\<rparr>"
    using mf ml by (simp_all add: getPhysicalItem_def n)
  have fu: "posAt ?m ?f < upper" and lu: "posAt ?m ?l < upper"
    using cf(7) cf(3) by simp_all
  show ?thesis
    using ne cf(2,3,8) fu lu
    by (simp add: getAnchor_def gf gl Let_def not_less)
qed

lemma calculateError_cong:
  "firstIdx t = firstIdx s \<Longrightarrow> lastIdx t = lastIdx s \<Longrightarrow> physicalMin t = physicalMin s \<Longrightarrow>
   physicalMax t = physicalMax s \<Longrightarrow> totalItems t = totalItems s \<Longrightarrow>
   scrollSize t = scrollSize s \<Longrightarrow> delta t = delta s \<Longrightarrow>
   calculateError t = calculateError s"
  by (simp add: calculateError_def)

lemma getItems_covered:
  assumes c: "coversInterval s lower upper" and n: "newPhysicalItems s = Map.empty"
    and an: "anchorIdx s = None" and sp0: "0 \<le> spacing s"
    and pm: "physicalMin s = posAt (physicalItems s) (firstIdx s)"
    and px: "physicalMax s = posAt (physicalItems s) (lastIdx s)
                           + sizeAt (physicalItems s) (lastIdx s) + spacing s"
    and err: "calculateError s = 0"
  shows "\<exists>a. getItems s lower upper =
           Some (Inr (s\<lparr>anchorIdx := Some a, anchorPos := Some (posAt (physicalItems s) a),
                        stable := True,
                        physicalItems := restrictTo (physicalItems s) (firstIdx s) (lastIdx s)\<rparr>))"
proof -
  let ?m = "physicalItems s" and ?f = "firstIdx s" and ?l = "lastIdx s" and ?sp = "spacing s"
  note cf = coversInterval_facts [OF c]
  from getAnchor_covered [OF c n] obtain a where
    ga: "getAnchor s lower upper = Some (Inr (a, s))" and a: "a = ?f \<or> a = ?l"
    by blast
  from a cf(3) have fa: "?f \<le> a" and al: "a \<le> ?l" by auto
  have ma: "?m a = Some \<lparr>pos = posAt ?m a, size_b = sizeAt ?m a\<rparr>"
    using cf(1) fa al by (rule knownWindow_present)
  then have gp: "getPosition s a = posAt ?m a"
    by (simp add: getPosition_def)
  let ?s1 = "s\<lparr>anchorIdx := Some a, anchorPos := Some (posAt ?m a)\<rparr>"
  have ra: "resolveAnchor s lower upper = Some (Inr (?s1, a, posAt ?m a))"
    by (simp add: resolveAnchor_def an ga gp)
  have reach: "lower \<le> posAt ?m a + sizeAt ?m a + ?sp"
  proof (cases "a < ?l")
    case True
    from knownWindow_next [OF cf(1) fa True] cf(6) fa True show ?thesis
      by (simp add: less_imp_le)
  next
    case False
    with al have "a = ?l" by simp
    with cf(8) sp0 show ?thesis by simp
  qed
  have ends: "upper \<le> posAt ?m ?l + sizeAt ?m ?l + ?sp \<or> ?l = totalItems ?s1 - 1"
    using cf(9) by simp
  have g: "growWindow ?s1 a (posAt ?m a) lower upper =
           ?s1\<lparr>newPhysicalItems := restrictTo ?m ?f ?l, firstIdx := ?f, lastIdx := ?l,
             physicalMin := posAt ?m ?f, physicalMax := posAt ?m ?l + sizeAt ?m ?l + ?sp,
             stable := True\<rparr>"
    using cf(1,2) fa al cf(5,6,7) ends reach
    by (rule growWindow_regrow) (simp_all add: n cf(4))
  have "calculateError (growWindow ?s1 a (posAt ?m a) lower upper) = calculateError s"
    by (rule calculateError_cong) (simp_all add: g pm px)
  with err have e: "calculateError (growWindow ?s1 a (posAt ?m a) lower upper) = 0"
    by simp
  have b: "buildWindow ?s1 a (posAt ?m a) lower upper = growWindow ?s1 a (posAt ?m a) lower upper"
    by (simp add: buildWindow_def correctExtent_def Let_def e)
  have "commitWindow (buildWindow ?s1 a (posAt ?m a) lower upper) =
          s\<lparr>anchorIdx := Some a, anchorPos := Some (posAt ?m a), stable := True,
            physicalItems := restrictTo ?m ?f ?l\<rparr>"
    by (rule Layout1d.equality) (simp_all add: b g commitWindow_def n pm px)
  then show ?thesis
    by (auto simp: getItems_def ra)
qed

lemma restrictTo_inside: "f \<le> i \<Longrightarrow> i \<le> l \<Longrightarrow> restrictTo m f l i = m i"
  by (simp add: restrictTo_def)

lemma posAt_restrictTo: "f \<le> i \<Longrightarrow> i \<le> l \<Longrightarrow> posAt (restrictTo m f l) i = posAt m i"
  by (simp add: posAt_def restrictTo_inside)

lemma sizeAt_restrictTo: "f \<le> i \<Longrightarrow> i \<le> l \<Longrightarrow> sizeAt (restrictTo m f l) i = sizeAt m i"
  by (simp add: sizeAt_def restrictTo_inside)

lemma adjoins_restrictTo:
  "f \<le> i \<Longrightarrow> i < l \<Longrightarrow> adjoins (restrictTo m f l) sp i = adjoins m sp i"
  by (simp add: adjoins_def restrictTo_inside split: option.splits)

lemma knownWindow_restrictTo:
  "knownWindow m sp f l \<Longrightarrow> knownWindow (restrictTo m f l) sp f l"
  by (auto simp: knownWindow_def list_all_iff contiguous_iff adjoins_restrictTo restrictTo_inside)

lemma coversInterval_restrictTo:
  assumes c: "coversInterval s lower upper"
    and t: "physicalItems t = restrictTo (physicalItems s) (firstIdx s) (lastIdx s)"
      "spacing t = spacing s" "firstIdx t = firstIdx s" "lastIdx t = lastIdx s"
      "totalItems t = totalItems s"
  shows "coversInterval t lower upper"
proof -
  note cf = coversInterval_facts [OF c]
  have p: "posAt (physicalItems t) i = posAt (physicalItems s) i"
    and z: "sizeAt (physicalItems t) i = sizeAt (physicalItems s) i"
    if "firstIdx s \<le> i" "i \<le> lastIdx s" for i
    using that by (simp_all add: t(1) posAt_restrictTo sizeAt_restrictTo)
  have k: "knownWindow (physicalItems t) (spacing t) (firstIdx t) (lastIdx t)"
    using cf(1) by (simp add: t knownWindow_restrictTo)
  show ?thesis
    unfolding coversInterval_def list_all_iff
    using k cf(2-9) by (auto simp: t(2-5) p z)
qed

lemma settledCover_restrictTo:
  assumes c: "settledCover s"
    and t: "physicalItems t = restrictTo (physicalItems s) (firstIdx s) (lastIdx s)"
      "spacing t = spacing s" "firstIdx t = firstIdx s" "lastIdx t = lastIdx s"
      "totalItems t = totalItems s"
    and u: "anchorIdx t = None" "newPhysicalItems t = Map.empty" "viewDim1 t = viewDim1 s"
      "physicalMin t = physicalMin s" "physicalMax t = physicalMax s"
      "scrollSize t = scrollSize s" "scrollPosition t = scrollPosition s"
      "overhang t = overhang s" "itemSize t = itemSize s" "sizeDim t = sizeDim s"
      "delta t = delta s"
  shows "settledCover t"
proof -
  from c [unfolded settledCover_def]
  have cv: "coversInterval s (fst (targetInterval s)) (snd (targetInterval s))"
    by blast
  note cf = coversInterval_facts [OF cv]
  have ti: "targetInterval t = targetInterval s"
    by (simp add: targetInterval_def u)
  have ce: "calculateError t = calculateError s"
    by (rule calculateError_cong) (simp_all add: t u)
  have id: "itemDim1 t = itemDim1 s"
    by (simp add: itemDim1_def u)
  have p: "posAt (physicalItems t) (firstIdx t) = posAt (physicalItems s) (firstIdx s)"
    "posAt (physicalItems t) (lastIdx t) = posAt (physicalItems s) (lastIdx s)"
    "sizeAt (physicalItems t) (lastIdx t) = sizeAt (physicalItems s) (lastIdx s)"
    using cf(3) by (simp_all add: t posAt_restrictTo sizeAt_restrictTo)
  have cvt: "coversInterval t (fst (targetInterval s)) (snd (targetInterval s))"
    using cv t by (rule coversInterval_restrictTo)
  show ?thesis
    unfolding settledCover_def ti ce id p u t(2) t(5)
    using c cvt unfolding settledCover_def by blast
qed

lemma childPositions_cong:
  assumes e: "firstIdx t = firstIdx s" "lastIdx t = lastIdx s" "delta t = delta s"
    "spacing t = spacing s" "sizeDim t = sizeDim s" "itemSize t = itemSize s"
    "newPhysicalItems t = newPhysicalItems s"
    and p: "\<And>i. firstIdx s \<le> i \<Longrightarrow> i \<le> lastIdx s \<Longrightarrow> physicalItems t i = physicalItems s i"
  shows "childPositions t = childPositions s"
proof -
  have "getPosition t i = getPosition s i \<and> getItemSize t i = getItemSize s i"
    if "firstIdx s \<le> i" "i \<le> lastIdx s" for i
  proof -
    from p [OF that] have pi: "physicalItems t i = physicalItems s i" .
    then have "getPhysicalItem t i = getPhysicalItem s i"
      by (intro getPhysicalItem_cong) (simp_all add: e)
    then have "getSize t i = getSize s i" by (simp add: getSize_def)
    moreover have "getPosition t i = getPosition s i"
      by (simp add: getPosition_def pi e split: option.splits)
    ultimately show ?thesis
      by (simp add: getItemSize_def itemDim1_def itemDim2_def e)
  qed
  then show ?thesis
    unfolding childPositions_def by (intro map_cong) (simp_all add: e)
qed

lemma updateScrollSize_settled:
  "scrollSize s = max (physicalMax s) (of_int (totalItems s) * itemDim1 s) \<Longrightarrow>
   updateScrollSize s = s"
  by (simp add: updateScrollSize_def baseUpdateScrollSize_def Let_def itemDim1_def)

text \<open>
  C5, amended. A reflow pass from a settled layout whose committed window covers the target
  interval of its scroll position, whose content size and scroll position are up to date and
  which has no extent error pending, returns and emits the range it had, with the stable
  flag set, and the positions and sizes its window had; the layout it leaves is settled and
  covering again, so every further pass emits the same range and positions.
\<close>

theorem reflow_settled_fixed_point:
  assumes c: "settledCover s"
  shows "\<exists>s'. reflow s = Some (Inr s')
           \<and> firstIdx s' = firstIdx s \<and> lastIdx s' = lastIdx s
           \<and> childPositions s' = childPositions s
           \<and> events s' = events s @
                 [EmitRange (firstIdx s) (lastIdx s) (needsRemeasure s) True,
                  EmitChildPositions (childPositions s), EmitScrollError (scrollError s)]
           \<and> settledCover s'"
proof -
  let ?m = "physicalItems s" and ?f = "firstIdx s" and ?l = "lastIdx s"
  let ?lo = "fst (targetInterval s)" and ?up = "snd (targetInterval s)"
  from c [unfolded settledCover_def]
  have h: "anchorIdx s = None" "newPhysicalItems s = Map.empty"
    "viewDim1 s \<noteq> 0" "totalItems s \<noteq> 0" "0 \<le> spacing s"
    "physicalMin s = posAt ?m ?f" "physicalMax s = posAt ?m ?l + sizeAt ?m ?l + spacing s"
    "scrollSize s = max (physicalMax s) (of_int (totalItems s) * itemDim1 s)"
    "max 0 (min (scrollSize s - viewDim1 s) (scrollPosition s)) = scrollPosition s"
    "calculateError s = 0" "coversInterval s ?lo ?up"
    by blast+
  note cf = coversInterval_facts [OF h(11)]
  from getItems_covered [OF h(11) h(2) h(1) h(5) h(6) h(7) h(10)] obtain a where
    gi: "getItems s ?lo ?up =
           Some (Inr (s\<lparr>anchorIdx := Some a, anchorPos := Some (posAt ?m a), stable := True,
                        physicalItems := restrictTo ?m ?f ?l\<rparr>))"
    by blast
  let ?s2 = "s\<lparr>anchorIdx := Some a, anchorPos := Some (posAt ?m a), stable := True,
                physicalItems := restrictTo ?m ?f ?l\<rparr>"
  have ga: "getActiveItems (updateScrollSize s) = Some (Inr ?s2)"
    by (simp add: updateScrollSize_settled [OF h(8)] getActiveItems_interval [OF h(3,4)] gi)
  have cp: "childPositions (emitRange (updateVisibleIndices (scrollIfNeeded ?s2))) = childPositions s"
    by (rule childPositions_cong)
       (simp_all add: emitRange_def updateVisibleIndices_def scrollIfNeeded_def Let_def
          restrictTo_inside)
  let ?s' = "resetReflowState (emitScrollError (emitChildPositions
               (emitRange (updateVisibleIndices (scrollIfNeeded ?s2)))))"
  have r: "reflow s = Some (Inr ?s')"
    using cf(2)
    by (simp add: reflow_def ga Let_def scrollIfNeeded_def emitRange_def updateVisibleIndices_def
          h(9))
  have ev: "events ?s' = events s @
                 [EmitRange ?f ?l (needsRemeasure s) True,
                  EmitChildPositions (childPositions s), EmitScrollError (scrollError s)]"
    using cp
    by (simp add: resetReflowState_def emitScrollError_def emitChildPositions_def)
       (simp add: emitRange_def updateVisibleIndices_def scrollIfNeeded_def Let_def h(9))
  have cp': "childPositions ?s' = childPositions s"
    by (rule childPositions_cong)
       (simp_all add: resetReflowState_def emitScrollError_def emitChildPositions_def
          emitRange_def updateVisibleIndices_def scrollIfNeeded_def Let_def
          restrictTo_inside)
  have sc: "settledCover ?s'"
    using c
    by (rule settledCover_restrictTo)
       (simp_all add: resetReflowState_def emitScrollError_def emitChildPositions_def
          emitRange_def updateVisibleIndices_def scrollIfNeeded_def Let_def h(2) h(9))
  have fl: "firstIdx ?s' = ?f" "lastIdx ?s' = ?l"
    by (simp_all add: resetReflowState_def emitScrollError_def emitChildPositions_def
          emitRange_def updateVisibleIndices_def scrollIfNeeded_def Let_def)
  from r fl cp' ev sc show ?thesis by blast
qed

lemma coveredThree_settled: "settledCover coveredThree"
  by (simp add: settledCover_def coversInterval_def targetInterval_def knownWindow_def
        contiguous_def adjoins_def posAt_def sizeAt_def calculateError_def itemDim1_def dimOf_def
        coveredThree_def initialLayout_def Let_def upto.simps)

section \<open>Passes on concrete layouts\<close>

lemmas anchor_defs = getActiveItems_def getItems_def resolveAnchor_def getAnchor_def
  calculateAnchor_def withState_def getPosition_def Let_def

lemmas window_defs = commitWindow_def buildWindow_def correctExtent_def calculateError_def
  growWindow_def seedWindow_def Let_def getSize_def getPhysicalItem_def itemDim1_def dimOf_def
  growBackward.simps backStep_def growForward.simps fwdStep_def



text \<open>
  C1. With three items, a spacing of 20 and a viewport of extent 10 the pass is stable
  and commits, and it leaves \<open>first = 0\<close> and \<open>last = -1\<close>: the anchor starts at the upper
  edge of the target interval, the forward loop does not run, and the final decrement of
  \<open>_last\<close> moves it below the anchor. The same happens, with no estimate involved, for a
  committed window of three items when the scroll position is a viewport above the content.
\<close>

theorem getActiveItems_last_below_first:
  "totalItems narrowViewport = 3 \<and> viewDim1 narrowViewport = 10
   \<and> (\<exists>s'. getActiveItems narrowViewport = Some (Inr s') \<and> stable s'
          \<and> firstIdx s' = 0 \<and> lastIdx s' = - 1
          \<and> physicalItems s' 0 = Some \<lparr>pos = 0, size_b = 50\<rparr>)
   \<and> totalItems scrolledAbove = 3 \<and> viewDim1 scrolledAbove = 500
   \<and> (\<exists>s'. getActiveItems scrolledAbove = Some (Inr s') \<and> stable s'
          \<and> firstIdx s' = 0 \<and> lastIdx s' = - 1
          \<and> physicalItems s' 0 = Some \<lparr>pos = 0, size_b = 50\<rparr>)"
proof -
  have narrow: "\<exists>s'. getActiveItems narrowViewport = Some (Inr s') \<and> stable s'
          \<and> firstIdx s' = 0 \<and> lastIdx s' = - 1
          \<and> physicalItems s' 0 = Some \<lparr>pos = 0, size_b = 50\<rparr>"
    apply (simp add: narrowViewport_def initialLayout_def anchor_defs)
    apply (simp add: window_defs)
    done
  have above: "\<exists>s'. getActiveItems scrolledAbove = Some (Inr s') \<and> stable s'
          \<and> firstIdx s' = 0 \<and> lastIdx s' = - 1
          \<and> physicalItems s' 0 = Some \<lparr>pos = 0, size_b = 50\<rparr>"
    apply (simp add: scrolledAbove_def initialLayout_def anchor_defs getPhysicalItem_def)
    apply (simp add: window_defs)
    done
  have sizes: "totalItems narrowViewport = 3" "viewDim1 narrowViewport = 10"
      "totalItems scrolledAbove = 3" "viewDim1 scrolledAbove = 500"
    by (simp_all add: narrowViewport_def scrolledAbove_def initialLayout_def)
  from narrow above sizes show ?thesis
    by blast
qed

text \<open>
  C2. With a single item that has no recorded size, the pass uses the estimate for the
  anchor, keeps the stable flag set and commits the window: the estimate of item 0 is in
  the committed window.
\<close>

theorem getActiveItems_estimated_anchor_committed:
  "getSize singleItem 0 = None \<and> itemDim1 singleItem = 50
   \<and> (\<exists>s'. getActiveItems singleItem = Some (Inr s') \<and> stable s'
          \<and> firstIdx s' = 0 \<and> lastIdx s' = 0
          \<and> physicalItems s' 0 = Some \<lparr>pos = 0, size_b = 50\<rparr>)"
  apply (simp add: singleItem_def initialLayout_def anchor_defs)
  apply (simp add: window_defs)
  done

theorem buildWindow_pinned_witness:
  "firstIdx (buildWindow initialLayout 0 5 0 150) = 0
   \<and> physicalMin (buildWindow initialLayout 0 5 0 150) = 0
   \<and> (\<exists>b. newPhysicalItems (buildWindow initialLayout 0 5 0 150) 0 = Some b \<and> pos b = 0)
   \<and> firstIdx (buildWindow (initialLayout\<lparr>scrollSize := 160\<rparr>) 2 100 90 150) = 1
   \<and> lastIdx (buildWindow (initialLayout\<lparr>scrollSize := 160\<rparr>) 2 100 90 150) = 2
   \<and> physicalMax (growWindow (initialLayout\<lparr>scrollSize := 160\<rparr>) 2 100 90 150) = 150
   \<and> physicalMax (buildWindow (initialLayout\<lparr>scrollSize := 160\<rparr>) 2 100 90 150) = 160"
proof -
  let ?t = "initialLayout\<lparr>scrollSize := 160\<rparr>"
  have a: "firstIdx (buildWindow initialLayout 0 5 0 150) = 0"
    by (simp add: initialLayout_def window_defs)
  have b: "firstIdx (buildWindow ?t 2 100 90 150) = 1
      \<and> lastIdx (buildWindow ?t 2 100 90 150) = 2
      \<and> physicalMin (growWindow ?t 2 100 90 150) = 50
      \<and> physicalMax (growWindow ?t 2 100 90 150) = 150"
    by (simp add: initialLayout_def window_defs)
  have c: "totalItems ?t = 3" "scrollSize (buildWindow ?t 2 100 90 150) = 160"
    by (simp_all add: initialLayout_def buildWindow_fields growWindow_alt afterFwd_def
          growForward_keeps afterBack_def growBackward_keeps seedWindow_fields)
  from buildWindow_pinned [of initialLayout 0 5 0 150] a
  have first: "physicalMin (buildWindow initialLayout 0 5 0 150) = 0
      \<and> (\<exists>b. newPhysicalItems (buildWindow initialLayout 0 5 0 150) 0 = Some b \<and> pos b = 0)"
    by blast
  from buildWindow_pinned [of ?t 2 100 90 150] b c
  have "physicalMax (buildWindow ?t 2 100 90 150) = 160"
    by simp
  with a b first show ?thesis by simp
qed

text \<open>
  The claim as stated fails at the end of a list that fits the window. After the first pass
  placed the three items at their estimate of 50 and they were measured at 30, the next
  pass is stable with \<open>first = 0\<close> and \<open>last = totalItems - 1\<close>; the correction pins the
  start, and \<open>physicalMax\<close> is 90 where \<open>scrollSize\<close> is 150.
\<close>

theorem buildWindow_last_not_pinned_counterexample:
  "getActiveItems initialLayout = Some (Inr estimatedThree)
   \<and> (\<exists>s2. getActiveItems (updateItemSizes estimatedThree
                 [(0, plainBox 10 30), (1, plainBox 10 30), (2, plainBox 10 30)]) = Some (Inr s2)
          \<and> stable s2 \<and> firstIdx s2 = 0 \<and> lastIdx s2 = totalItems s2 - 1
          \<and> physicalMax s2 = 90 \<and> scrollSize s2 = 150)"
proof
  show "getActiveItems initialLayout = Some (Inr estimatedThree)"
    apply (simp add: initialLayout_def estimatedThree_def anchor_defs)
    apply (simp add: window_defs)
    done
  show "\<exists>s2. getActiveItems (updateItemSizes estimatedThree
                 [(0, plainBox 10 30), (1, plainBox 10 30), (2, plainBox 10 30)]) = Some (Inr s2)
          \<and> stable s2 \<and> firstIdx s2 = 0 \<and> lastIdx s2 = totalItems s2 - 1
          \<and> physicalMax s2 = 90 \<and> scrollSize s2 = 150"
    apply (simp add: initialLayout_def estimatedThree_def measure_defs)
    apply (simp add: anchor_defs)
    apply (simp add: window_defs)
    done
qed

lemmas emit_defs = scrollIfNeeded_def emitScrollSize_def emitRange_def updateVisibleIndices_def
  resetReflowState_def emitScrollError_def emitChildPositions_def childPositions_def
  getPosition_def getItemSize_def getSize_def getPhysicalItem_def orElse_def setDim_def
  secondaryDim_def itemDim1_def itemDim2_def dimOf_def Let_def

theorem reflow_settled_fixed_point_witness:
  "settledCover coveredThree
   \<and> (\<exists>s'. reflow coveredThree = Some (Inr s') \<and> firstIdx s' = 0 \<and> lastIdx s' = 2
          \<and> events s' = [EmitRange 0 2 False True,
                          EmitChildPositions [(0, 0, 50), (1, 50, 50), (2, 100, 50)],
                          EmitScrollError 0]
          \<and> settledCover s')"
proof -
  have cp: "childPositions coveredThree = [(0, 0, 50), (1, 50, 50), (2, 100, 50)]"
    by (simp add: coveredThree_def initialLayout_def emit_defs upto.simps)
  have f: "firstIdx coveredThree = 0" "lastIdx coveredThree = 2" "events coveredThree = []"
    "needsRemeasure coveredThree = False" "scrollError coveredThree = 0"
    by (simp_all add: coveredThree_def initialLayout_def)
  from reflow_settled_fixed_point [OF coveredThree_settled] coveredThree_settled
  show ?thesis
    by (auto simp: cp f)
qed

lemma getActiveItems_remeasuredEnd:
  "getActiveItems (updateScrollSize remeasuredEnd) = Some (Inr passA)"
  apply (simp add: remeasuredEnd_def passA_def updateScrollSize_def baseUpdateScrollSize_def
           itemDim1_def dimOf_def)
  apply (simp add: anchor_defs getPhysicalItem_def)
  apply (simp add: window_defs)
  done

lemma getActiveItems_settledEnd:
  "getActiveItems (updateScrollSize settledEnd) = Some (Inr passB)"
  apply (simp add: settledEnd_def remeasuredEnd_def passA_def passB_def updateScrollSize_def
           baseUpdateScrollSize_def itemDim1_def dimOf_def)
  apply (simp add: anchor_defs getPhysicalItem_def)
  apply (simp add: window_defs)
  done

text \<open>
  The claim as stated fails after an extent correction. The pass from \<open>remeasuredEnd\<close> is
  stable, keeps the range 3 to 9 and drops the anchor, so the layout is settled; its extent
  correction moved the window by 70 while the target interval, clamped to the content size,
  stayed in place. The next pass, with nothing changed in between, grows the window
  backward and emits the range 2 to 9, unstable.
\<close>

theorem reflow_settled_counterexample:
  "reflow remeasuredEnd = Some (Inr settledEnd)
   \<and> anchorIdx settledEnd = None \<and> stable settledEnd
   \<and> firstIdx settledEnd = firstIdx remeasuredEnd \<and> lastIdx settledEnd = lastIdx remeasuredEnd
   \<and> (\<exists>s2. reflow settledEnd = Some (Inr s2) \<and> firstIdx s2 = 2 \<and> lastIdx s2 = 9
          \<and> \<not> stable s2
          \<and> events s2 = events settledEnd @
               [EmitRange 2 9 False False,
                EmitChildPositions [(2, 180, 90), (3, 370, 90), (4, 460, 90), (5, 550, 90),
                                    (6, 640, 90), (7, 730, 90), (8, 820, 90), (9, 910, 90)],
                EmitScrollError (- 70)])"
proof (intro conjI)
  show "reflow remeasuredEnd = Some (Inr settledEnd)"
    apply (simp add: reflow_def getActiveItems_remeasuredEnd)
    apply (simp add: settledEnd_def passA_def remeasuredEnd_def emit_defs upto.simps)
    done
  show "anchorIdx settledEnd = None" "stable settledEnd"
    "firstIdx settledEnd = firstIdx remeasuredEnd" "lastIdx settledEnd = lastIdx remeasuredEnd"
    by (simp_all add: settledEnd_def passA_def remeasuredEnd_def)
  show "\<exists>s2. reflow settledEnd = Some (Inr s2) \<and> firstIdx s2 = 2 \<and> lastIdx s2 = 9
          \<and> \<not> stable s2
          \<and> events s2 = events settledEnd @
               [EmitRange 2 9 False False,
                EmitChildPositions [(2, 180, 90), (3, 370, 90), (4, 460, 90), (5, 550, 90),
                                    (6, 640, 90), (7, 730, 90), (8, 820, 90), (9, 910, 90)],
                EmitScrollError (- 70)]"
    apply (simp add: reflow_def getActiveItems_settledEnd)
    apply (simp add: settledEnd_def passA_def passB_def remeasuredEnd_def emit_defs upto.simps)
    done
qed

end
